theory Spec2Isabelle
  imports Complex_Main "HOL-Library.AList"
begin

section \<open>Tensors and failures\<close>

text \<open>
  The model follows \<^verbatim>\<open>onmt/Models.py\<close>. A tensor is a nested list, one list
  level per dimension, so the rank of a tensor is part of its type. The file is written
  against the tensor library in which a \<^verbatim>\<open>Variable\<close> wraps a tensor and a tensor
  without elements has no dimensions: unpacking \<^verbatim>\<open>x.size()\<close> of such a tensor
  into names fails. Arithmetic is over the reals; rounding of machine floats is not part
  of the model.

  Everything the code raises is a value: \<open>AssertionError\<close> for \<^verbatim>\<open>assert\<close> and
  \<^verbatim>\<open>aeq\<close>, \<open>ValueError\<close> for a failed unpacking of a size, \<open>AttributeError\<close>
  for a method call on \<^verbatim>\<open>None\<close>, \<open>KeyError\<close> for a missing dictionary key,
  \<open>ZeroDivisionError\<close> for an integer division by zero, and \<open>TorchError\<close> for
  what the tensor library raises itself (shapes that do not fit, an index out of range,
  the truth value of a tensor, stacking nothing).
\<close>

datatype error =
  AssertionError | ValueError | AttributeError | KeyError | ZeroDivisionError | TorchError

type_synonym tensor2 = "real list list"
type_synonym tensor3 = "real list list list"

definition bindE :: "error + 'a \<Rightarrow> ('a \<Rightarrow> error + 'b) \<Rightarrow> error + 'b" where
  "bindE m f = (case m of Inl e \<Rightarrow> Inl e | Inr x \<Rightarrow> f x)"

text \<open>\<^verbatim>\<open>a, b = x.size()\<close> and \<^verbatim>\<open>a, b, c = x.size()\<close>.\<close>

definition size2 :: "'a list list \<Rightarrow> error + nat \<times> nat" where
  "size2 x = (case x of [] \<Rightarrow> Inl ValueError | r # _ \<Rightarrow> Inr (length x, length r))"

definition size3 :: "'a list list list \<Rightarrow> error + nat \<times> nat \<times> nat" where
  "size3 x =
     (case x of
        [] \<Rightarrow> Inl ValueError
      | [] # _ \<Rightarrow> Inl ValueError
      | (r # _) # _ \<Rightarrow> Inr (length x, length (hd x), length r))"

text \<open>A tensor of shape \<open>a \<times> b \<times> c\<close>, and one of shape \<open>a \<times> b\<close>.\<close>

definition has_shape3 :: "nat \<Rightarrow> nat \<Rightarrow> nat \<Rightarrow> 'a list list list \<Rightarrow> bool" where
  "has_shape3 a b c x \<longleftrightarrow>
     length x = a \<and> list_all (\<lambda>m. length m = b \<and> list_all (\<lambda>r. length r = c) m) x"

definition has_shape2 :: "nat \<Rightarrow> nat \<Rightarrow> 'a list list \<Rightarrow> bool" where
  "has_shape2 a b x \<longleftrightarrow> length x = a \<and> list_all (\<lambda>r. length r = b) x"

text \<open>
  \<^verbatim>\<open>x[0:n:2]\<close> keeps every second slice of the first dimension; \<^verbatim>\<open>x[1:n:2]\<close> is
  the same on the list without its first slice.
\<close>

fun stride2 :: "'a list \<Rightarrow> 'a list" where
  "stride2 [] = []"
| "stride2 [x] = [x]"
| "stride2 (x # y # zs) = x # stride2 zs"

text \<open>
  \<^verbatim>\<open>torch.cat([x, y], 2)\<close> on tensors of rank 3: the first two dimensions must
  agree, and the channels of \<open>y\<close> follow those of \<open>x\<close>.
\<close>

definition cat_dim2 :: "'a list list list \<Rightarrow> 'a list list list \<Rightarrow> error + 'a list list list" where
  "cat_dim2 x y =
     (if x \<noteq> [] \<and> map length x = map length y
      then Inr (map2 (map2 (@)) x y) else Inl TorchError)"

text \<open>
  \<^verbatim>\<open>torch.cat([x, y], 1)\<close> on tensors of rank 2: both have the same rows count, and
  each row of \<open>y\<close> follows the row of \<open>x\<close>.
\<close>

definition cat_dim1 :: "'a list list \<Rightarrow> 'a list list \<Rightarrow> error + 'a list list" where
  "cat_dim1 x y =
     (if x \<noteq> [] \<and> length x = length y then Inr (map2 (@) x y) else Inl TorchError)"

text \<open>
  \<^verbatim>\<open>x -= y\<close> and \<^verbatim>\<open>x + y\<close> on tensors of rank 2, entry by entry. The attention
  weights, the budget and the coverage all have the shape batch \<open>\<times>\<close> source length;
  operands of different shapes are a failure here, so the broadcasting of a tensor with
  a single row or column is left out of the model.
\<close>

definition isub :: "tensor2 \<Rightarrow> tensor2 \<Rightarrow> error + tensor2" where
  "isub x y =
     (if map length x = map length y then Inr (map2 (map2 (-)) x y) else Inl TorchError)"

definition add2 :: "tensor2 \<Rightarrow> tensor2 \<Rightarrow> error + tensor2" where
  "add2 x y =
     (if map length x = map length y then Inr (map2 (map2 (+)) x y) else Inl TorchError)"

text \<open>
  \<^verbatim>\<open>x.squeeze(0)\<close> where the code goes on with a tensor of rank 2: a first dimension
  other than 1 stays, and unpacking the size into two names fails.
\<close>

definition squeeze0 :: "'a list list list \<Rightarrow> error + 'a list list" where
  "squeeze0 x = (case x of [m] \<Rightarrow> Inr m | _ \<Rightarrow> Inl ValueError)"

text \<open>
  \<^verbatim>\<open>torch.stack(xs)\<close>: the list is not empty and its tensors have one shape.
\<close>

definition stack :: "'a list list list \<Rightarrow> error + 'a list list list" where
  "stack xs =
     (case xs of
        [] \<Rightarrow> Inl TorchError
      | x # _ \<Rightarrow> if list_all (\<lambda>y. map length y = map length x) xs then Inr xs
                 else Inl TorchError)"

text \<open>
  The truth value of a \<^verbatim>\<open>Variable\<close>: false without elements, a failure otherwise.
  (Later releases of the library give a tensor of exactly one element the truth value of
  that element; for two elements or more every release fails.)
\<close>

definition tensor_bool :: "tensor2 \<Rightarrow> error + bool" where
  "tensor_bool x = (if concat x = [] then Inr False else Inl TorchError)"

text \<open>
  \<^verbatim>\<open>nn.Dropout\<close> multiplies every entry by a factor drawn for its position (zero, or
  the rescaling constant; one in evaluation mode). The factors are a parameter.
\<close>

definition dropout2 :: "(nat \<Rightarrow> nat \<Rightarrow> real) \<Rightarrow> tensor2 \<Rightarrow> tensor2" where
  "dropout2 m x =
     map2 (\<lambda>b row. map2 (\<lambda>i v. v * m b i) [0..<length row] row) [0..<length x] x"

definition dropout3 :: "(nat \<Rightarrow> nat \<Rightarrow> nat \<Rightarrow> real) \<Rightarrow> tensor3 \<Rightarrow> tensor3" where
  "dropout3 m x = map2 (\<lambda>t. dropout2 (m t)) [0..<length x] x"

text \<open>
  Modelled from the spec: \<^verbatim>\<open>onmt.modules.aeq\<close> is not among the sources. The spec
  calls its uses explicit equality assertions over batch sizes: all arguments are equal,
  or the assertion fails.
\<close>

definition aeq :: "nat list \<Rightarrow> error + unit" where
  "aeq args = (if list_all (\<lambda>a. a = hd args) args then Inr () else Inl AssertionError)"

section \<open>Embeddings\<close>

text \<open>
  \<^verbatim>\<open>make_positional_encodings\<close>: a table with one row for every position below
  \<open>max_len\<close>, sine in the even channels and cosine in the odd ones.
\<close>

definition make_positional_encodings :: "nat \<Rightarrow> nat \<Rightarrow> real list list" where
  "make_positional_encodings width max_len =
     map (\<lambda>j. map (\<lambda>i. let k = real j / (10000 powr (2 * real i / real width))
                        in if i mod 2 = 1 then cos k else sin k) [0..<width])
       [0..<max_len]"

text \<open>
  \<^verbatim>\<open>nn.Embedding\<close> is the function \<open>word_lut\<close> from a token id to its vector. The
  field \<open>pe\<close> is the table the constructor builds when positional encoding is on,
  \<open>make_positional_encodings word_vec_size 5000\<close>.
\<close>

record embeddings =
  positional_encoding :: bool
  pe :: "real list list"
  word_lut :: "int \<Rightarrow> real list"
  emb_dropout :: "nat \<Rightarrow> nat \<Rightarrow> nat \<Rightarrow> real"

text \<open>\<^verbatim>\<open>src_input[:, :, 0]\<close>: the word id is feature 0 of every position.\<close>

definition feature0 :: "int list list list \<Rightarrow> error + int list list" where
  "feature0 x =
     (if list_all (list_all (\<lambda>f. f \<noteq> [])) x then Inr (map (map hd) x) else Inl TorchError)"

text \<open>
  \<^verbatim>\<open>Embeddings.forward\<close>. The slice of the table is expanded to the shape of
  \<open>emb\<close>, which fails when the table has fewer rows than the input has steps or
  narrower rows than the vectors.
\<close>

definition Embeddings_forward :: "embeddings \<Rightarrow> int list list list \<Rightarrow> error + tensor3" where
  "Embeddings_forward E src_input =
     bindE (feature0 src_input) (\<lambda>ids.
       let word = map (map (word_lut E)) ids in
       if positional_encoding E then
         bindE (size3 word) (\<lambda>(t, b, d).
           if t \<le> length (pe E) \<and> list_all (\<lambda>row. d \<le> length row) (take t (pe E))
              \<and> has_shape3 t b d word
           then Inr (dropout3 (emb_dropout E)
                  (map2 (\<lambda>row. map (map2 (\<lambda>p v. v + p) (take d row))) (take t (pe E)) word))
           else Inl TorchError)
       else Inr word)"

section \<open>Encoder\<close>

text \<open>The options \<^verbatim>\<open>Encoder.__init__\<close> reads, and the fields it sets from them.\<close>

record encoder_opt =
  opt_layers :: nat
  opt_brnn :: bool
  opt_rnn_size :: nat

record encoder_cfg =
  enc_layers :: nat
  enc_num_directions :: nat
  enc_hidden_size :: nat

definition Encoder_init :: "encoder_opt \<Rightarrow> error + encoder_cfg" where
  "Encoder_init opt =
     (let nd = (if opt_brnn opt then 2 else 1) in
      if opt_rnn_size opt mod nd \<noteq> 0 then Inl AssertionError
      else Inr \<lparr>enc_layers = opt_layers opt, enc_num_directions = nd,
                enc_hidden_size = opt_rnn_size opt div nd\<rparr>)"

text \<open>
  The encoder with its modules. Packing, the recurrent network and unpacking belong to
  the tensor library: \<open>enc_rnn\<close> is the network on the embedded input, the list of
  lengths when the input is packed, and the initial hidden state; \<open>enc_unpack\<close> pads the
  packed outputs. The final hidden state is a tuple (one tensor for a GRU, two for an
  LSTM), here a list.
\<close>

record encoder = encoder_cfg +
  enc_embeddings :: embeddings
  enc_rnn :: "tensor3 \<Rightarrow> int list option \<Rightarrow> tensor3 list option \<Rightarrow> tensor3 \<times> tensor3 list"
  enc_unpack :: "tensor3 \<Rightarrow> tensor3"

text \<open>\<^verbatim>\<open>Encoder.forward\<close>; \<open>lengths\<close> is a tensor of rank 2, as line 102 unpacks it.\<close>

definition Encoder_forward ::
  "encoder \<Rightarrow> int list list list \<Rightarrow> int list list option \<Rightarrow> tensor3 list option
     \<Rightarrow> error + tensor3 list \<times> tensor3 \<times> tensor2 option" where
  "Encoder_forward E input lengths hidden0 =
     bindE (size3 input) (\<lambda>(s_len, n_batch, n_feats).
     bindE (case lengths of
              None \<Rightarrow> Inr ()
            | Some l \<Rightarrow> bindE (size2 l) (\<lambda>(_, n_batch'). aeq [n_batch, n_batch'])) (\<lambda>_.
     bindE (Embeddings_forward (enc_embeddings E) input) (\<lambda>emb.
     bindE (size3 emb) (\<lambda>(s_len, n_batch, vec_size).
       let lengths' = map_option concat lengths;
           (outputs, hidden_t) = enc_rnn E emb lengths' hidden0;
           outputs = (if lengths' \<noteq> None \<and> lengths' \<noteq> Some [] then enc_unpack E outputs
                      else outputs)
       in Inr (hidden_t, outputs, None)))))"

section \<open>Decoder states\<close>

text \<open>
  The two state classes. \<open>'a\<close> is what a state holds for a hidden tensor, the input
  feed and the previous input, \<open>'b\<close> for the budget and \<open>'c\<close> for the coverage: the
  tensors themselves in \<^verbatim>\<open>Decoder.forward\<close>, their addresses where the state's own
  methods update them in place. The coverage of a state is a tensor
  \<open>1 \<times> batch \<times> src_len\<close>; in \<^verbatim>\<open>Decoder.forward\<close> the model holds its one slice, of
  rank 2, so that \<^verbatim>\<open>squeeze(0)\<close> at line 212 and \<^verbatim>\<open>unsqueeze(0)\<close> at line 251
  leave the model's value as it is. The attribute \<^verbatim>\<open>all\<close> is \<open>all_of\<close>.
\<close>

datatype ('a, 'b, 'c) decoder_state =
    RNNDecoderState (hidden: "'a list") (input_feed: "'a option") (coverage: "'c option")
      (attn_upper_bounds: "'b option")
  | TransformerDecoderState (previous_input: "'a option")

fun all_of :: "('a, 'b, 'c) decoder_state \<Rightarrow> 'a option list" where
  "all_of (RNNDecoderState h f c u) = map Some h @ [f]"
| "all_of (TransformerDecoderState p) = [p]"

section \<open>Decoder\<close>

text \<open>
  The decoder with its modules: the stacked recurrent cell, the attention layers and the
  context gate are functions. The cell has dropout between its layers and the decoder
  applies dropout to every step's output, so \<open>dec_rnn\<close> and \<open>dec_dropout\<close> also take
  the number of the step. The attention layer reads the budget it is given and returns
  the attended output and the weights; it does not write the budget.
\<close>

record decoder =
  dec_coverage :: bool
  dec_copy :: bool
  dec_exhaustion_loss :: bool
  dec_input_feed :: bool
  dec_fertility :: real
  dec_hidden_size :: nat
  dec_embeddings :: embeddings
  dec_rnn :: "nat \<Rightarrow> tensor2 \<Rightarrow> tensor3 list \<Rightarrow> tensor2 \<times> tensor3 list"
  dec_attn :: "tensor2 \<Rightarrow> tensor3 \<Rightarrow> tensor2 \<Rightarrow> tensor2 \<times> tensor2"
  dec_copy_attn :: "tensor2 \<Rightarrow> tensor3 \<Rightarrow> tensor2 \<times> tensor2"
  dec_context_gate :: "(tensor2 \<Rightarrow> tensor2 \<Rightarrow> tensor2 \<Rightarrow> tensor2) option"
  dec_dropout :: "nat \<Rightarrow> nat \<Rightarrow> nat \<Rightarrow> real"

text \<open>
  The variables of the loop of \<^verbatim>\<open>Decoder.forward\<close>. The dictionary \<^verbatim>\<open>attns\<close> is
  an association list. \<open>v_attn_calls\<close> is not a variable of the code: it lists, call by
  call, the budget that \<^verbatim>\<open>self.attn\<close> was given, and nothing reads it.
\<close>

record loop_vars =
  v_upper_bounds :: "tensor2 option"
  v_output :: tensor2
  v_hidden :: "tensor3 list"
  v_coverage :: "tensor2 option"
  v_outputs :: "tensor2 list"
  v_attns :: "(string \<times> tensor2 list) list"
  v_attn_calls :: "tensor2 list"

text \<open>
  Line 220: the last column of the budget becomes 100 in every row. A row without a last
  entry is an index out of range.
\<close>

definition set_sink :: "tensor2 \<Rightarrow> error + tensor2" where
  "set_sink ub =
     (if [] \<in> set ub then Inl TorchError else Inr (map (\<lambda>row. butlast row @ [100]) ub))"

text \<open>
  The budget is one object: lines 220 and 229 write it in place, and line 248 appends the
  object itself, so every entry of \<^verbatim>\<open>attns["upper_bounds"]\<close> is the budget as it is
  now. \<open>write_upper_bounds\<close> is a write to the object, seen through the dictionary.
\<close>

definition write_upper_bounds ::
  "tensor2 \<Rightarrow> (string \<times> tensor2 list) list \<Rightarrow> (string \<times> tensor2 list) list" where
  "write_upper_bounds ub attns =
     map (\<lambda>(k, l). if k = ''upper_bounds'' then (k, map (\<lambda>_. ub) l) else (k, l)) attns"

text \<open>\<^verbatim>\<open>attns[k] += [x]\<close>.\<close>

definition dict_append ::
  "(string \<times> 'v list) list \<Rightarrow> string \<Rightarrow> 'v \<Rightarrow> error + (string \<times> 'v list) list" where
  "dict_append attns k x =
     (case map_of attns k of
        None \<Rightarrow> Inl KeyError
      | Some l \<Rightarrow> Inr (AList.update k (l @ [x]) attns))"

text \<open>
  Lines 215 to 220: the budget the step works on. A budget that is still \<^verbatim>\<open>None\<close>
  is created with the fertility in every entry; then the sink column is set.
\<close>

definition step_upper_bounds :: "decoder \<Rightarrow> nat \<Rightarrow> nat \<Rightarrow> tensor2 option \<Rightarrow> error + tensor2"
  where
  "step_upper_bounds d n_batch s_len upper_bounds =
     set_sink (case upper_bounds of
                 None \<Rightarrow> replicate n_batch (replicate s_len (dec_fertility d))
               | Some u \<Rightarrow> u)"

text \<open>Lines 238 to 241, the coverage.\<close>

definition coverage_step ::
  "decoder \<Rightarrow> tensor2 option \<Rightarrow> tensor2 \<Rightarrow> (string \<times> tensor2 list) list
     \<Rightarrow> error + tensor2 option \<times> (string \<times> tensor2 list) list" where
  "coverage_step d cov attn attns =
     (if dec_coverage d then
        bindE (case cov of
                 None \<Rightarrow> Inr attn
               | Some c \<Rightarrow> bindE (tensor_bool c) (\<lambda>t. if t then add2 c attn else Inr attn))
          (\<lambda>c'. bindE (dict_append attns ''coverage'' c') (\<lambda>a. Inr (Some c', a)))
      else Inr (cov, attns))"

text \<open>Lines 243 to 246, the copy attention, and lines 247 and 248.\<close>

definition copy_step ::
  "decoder \<Rightarrow> tensor2 \<Rightarrow> tensor3 \<Rightarrow> (string \<times> tensor2 list) list
     \<Rightarrow> error + (string \<times> tensor2 list) list" where
  "copy_step d output context attns =
     (if dec_copy d then
        dict_append attns ''copy'' (snd (dec_copy_attn d output (transpose context)))
      else Inr attns)"

definition exhaustion_step ::
  "decoder \<Rightarrow> tensor2 \<Rightarrow> (string \<times> tensor2 list) list
     \<Rightarrow> error + (string \<times> tensor2 list) list" where
  "exhaustion_step d upper_bounds attns =
     (if dec_exhaustion_loss d then dict_append attns ''upper_bounds'' upper_bounds
      else Inr attns)"

text \<open>One pass through the body of the loop, lines 215 to 248, at step \<open>i\<close>.\<close>

definition decoder_step ::
  "decoder \<Rightarrow> tensor3 \<Rightarrow> nat \<Rightarrow> nat \<Rightarrow> nat \<times> tensor2 \<Rightarrow> loop_vars \<Rightarrow> error + loop_vars" where
  "decoder_step d context n_batch s_len ie v =
     (let (i, emb_t) = ie in
      bindE (step_upper_bounds d n_batch s_len (v_upper_bounds v)) (\<lambda>ub1.
      bindE (if dec_input_feed d then cat_dim1 emb_t (v_output v) else Inr emb_t) (\<lambda>emb_t.
        let (rnn_output, hidden') = dec_rnn d i emb_t (v_hidden v);
            (attn_output, attn) = dec_attn d rnn_output (transpose context) ub1
        in
      bindE (isub ub1 attn) (\<lambda>ub2.
        let output = dropout2 (dec_dropout d i)
                       (case dec_context_gate d of
                          Some gate \<Rightarrow> gate emb_t rnn_output attn_output
                        | None \<Rightarrow> attn_output)
        in
      bindE (dict_append (write_upper_bounds ub2 (v_attns v)) ''std'' attn) (\<lambda>attns1.
      bindE (coverage_step d (v_coverage v) attn attns1) (\<lambda>(coverage', attns2).
      bindE (copy_step d output context attns2) (\<lambda>attns3.
      bindE (exhaustion_step d ub2 attns3) (\<lambda>attns4.
        Inr \<lparr>v_upper_bounds = Some ub2, v_output = output, v_hidden = hidden',
             v_coverage = coverage', v_outputs = v_outputs v @ [output],
             v_attns = attns4, v_attn_calls = v_attn_calls v @ [ub1]\<rparr>))))))))"

text \<open>The loop over the steps \<^verbatim>\<open>enumerate(emb.split(1))\<close>.\<close>

fun decoder_loop ::
  "decoder \<Rightarrow> tensor3 \<Rightarrow> nat \<Rightarrow> nat \<Rightarrow> (nat \<times> tensor2) list \<Rightarrow> loop_vars \<Rightarrow> error + loop_vars"
  where
  "decoder_loop d context n_batch s_len [] v = Inr v"
| "decoder_loop d context n_batch s_len (ie # steps) v =
     bindE (decoder_step d context n_batch s_len ie v) (decoder_loop d context n_batch s_len steps)"

text \<open>The dictionary of empty lists that lines 196 to 202 set up.\<close>

definition init_attns :: "decoder \<Rightarrow> (string \<times> tensor2 list) list" where
  "init_attns d =
     [(''std'', [])] @ (if dec_copy d then [(''copy'', [])] else [])
       @ (if dec_coverage d then [(''coverage'', [])] else [])
       @ (if dec_exhaustion_loss d then [(''upper_bounds'', [])] else [])"

text \<open>
  \<^verbatim>\<open>Decoder.forward\<close> before its loop, lines 183 to 212: the checks, the embedding,
  the dictionary and the variables taken from the state. The results are the embedded
  steps, the batch size and the source length that line 217 uses, and the variables the
  loop starts with.
\<close>

definition decoder_setup ::
  "decoder \<Rightarrow> int list list \<Rightarrow> int list list list \<Rightarrow> tensor3
     \<Rightarrow> (tensor3, tensor2, tensor2) decoder_state \<Rightarrow> tensor2 option
     \<Rightarrow> error + tensor3 \<times> nat \<times> nat \<times> loop_vars" where
  "decoder_setup d input src context state upper_bounds =
     bindE (size2 input) (\<lambda>(t_len, n_batch).
     bindE (size3 src) (\<lambda>(s_len, n_batch', _).
     bindE (size3 context) (\<lambda>(s_len', n_batch'', _).
     bindE (aeq [n_batch, n_batch', n_batch'']) (\<lambda>_.
     bindE (Embeddings_forward (dec_embeddings d) (map (map (\<lambda>w. [w])) input)) (\<lambda>emb.
       case state of
         TransformerDecoderState _ \<Rightarrow> Inl AssertionError
       | RNNDecoderState hidden0 feed coverage0 _ \<Rightarrow>
           bindE (case feed of None \<Rightarrow> Inl AttributeError | Some f \<Rightarrow> squeeze0 f) (\<lambda>output.
           bindE (size2 output) (\<lambda>(n_batch', _).
           bindE (aeq [n_batch, n_batch']) (\<lambda>_.
             Inr (emb, n_batch', s_len',
                  \<lparr>v_upper_bounds = upper_bounds, v_output = output, v_hidden = hidden0,
                   v_coverage = coverage0, v_outputs = [], v_attns = init_attns d,
                   v_attn_calls = []\<rparr>)))))))))"

text \<open>
  \<^verbatim>\<open>Decoder.forward\<close> down to the end of its loop, stopped after the first \<open>n\<close> steps.
  The result is the variables of the loop as they are after step \<open>n\<close>.
\<close>

definition decoder_steps ::
  "decoder \<Rightarrow> int list list \<Rightarrow> int list list list \<Rightarrow> tensor3
     \<Rightarrow> (tensor3, tensor2, tensor2) decoder_state \<Rightarrow> tensor2 option \<Rightarrow> nat \<Rightarrow> error + loop_vars"
  where
  "decoder_steps d input src context state upper_bounds n =
     bindE (decoder_setup d input src context state upper_bounds) (\<lambda>(emb, n_batch, s_len, v).
       decoder_loop d context n_batch s_len (take n (enumerate 0 emb)) v)"

text \<open>\<^verbatim>\<open>for k in attns: attns[k] = torch.stack(attns[k])\<close>.\<close>

fun stack_all :: "(string \<times> tensor2 list) list \<Rightarrow> error + (string \<times> tensor3) list" where
  "stack_all [] = Inr []"
| "stack_all ((k, l) # rest) =
     bindE (stack l) (\<lambda>s. bindE (stack_all rest) (\<lambda>r. Inr ((k, s) # r)))"

text \<open>
  \<^verbatim>\<open>Decoder.forward\<close>: all the steps of the input, then lines 250 to 257. The results
  are the outputs, the new state, the attention maps and the budget.
\<close>

definition Decoder_forward ::
  "decoder \<Rightarrow> int list list \<Rightarrow> int list list list \<Rightarrow> tensor3
     \<Rightarrow> (tensor3, tensor2, tensor2) decoder_state \<Rightarrow> tensor2 option
     \<Rightarrow> error + tensor3 \<times> (tensor3, tensor2, tensor2) decoder_state
                \<times> (string \<times> tensor3) list \<times> tensor2 option" where
  "Decoder_forward d input src context state upper_bounds =
     bindE (decoder_steps d input src context state upper_bounds (length input)) (\<lambda>v.
       let state' = RNNDecoderState (v_hidden v) (Some [v_output v]) (v_coverage v)
                      (v_upper_bounds v)
       in
     bindE (stack (v_outputs v)) (\<lambda>outputs.
     bindE (stack_all (v_attns v)) (\<lambda>attns.
       Inr (outputs, state', attns, v_upper_bounds v))))"

section \<open>NMTModel\<close>

record nmt_model =
  multigpu :: bool
  model_encoder :: encoder
  model_decoder :: decoder

text \<open>\<^verbatim>\<open>NMTModel._fix_enc_hidden\<close>, with the encoder's number of directions.\<close>

definition fix_enc_hidden :: "nat \<Rightarrow> tensor3 \<Rightarrow> error + tensor3" where
  "fix_enc_hidden n_dirs h =
     (if n_dirs = 2 then cat_dim2 (stride2 h) (stride2 (drop 1 h)) else Inr h)"

fun fix_all :: "nat \<Rightarrow> tensor3 list \<Rightarrow> error + tensor3 list" where
  "fix_all n_dirs [] = Inr []"
| "fix_all n_dirs (h # hs) =
     bindE (fix_enc_hidden n_dirs h) (\<lambda>h'. bindE (fix_all n_dirs hs) (\<lambda>hs'. Inr (h' # hs')))"

text \<open>
  \<^verbatim>\<open>NMTModel.init_decoder_state\<close> with \<^verbatim>\<open>RNNDecoderState.init_input_feed\<close>: the
  input feed is a tensor of zeros, \<open>1 \<times> batch \<times> rnn_size\<close>.
\<close>

definition init_decoder_state ::
  "nmt_model \<Rightarrow> tensor3 \<Rightarrow> tensor3 list \<Rightarrow> error + (tensor3, tensor2, tensor2) decoder_state"
  where
  "init_decoder_state M context enc_hidden =
     bindE (fix_all (enc_num_directions (model_encoder M)) enc_hidden) (\<lambda>hs.
     bindE (size3 context) (\<lambda>(_, batch_size, _).
       Inr (RNNDecoderState hs
              (Some [replicate batch_size (replicate (dec_hidden_size (model_decoder M)) 0)])
              None None)))"

text \<open>
  \<^verbatim>\<open>tgt[:-1]\<close>: all the steps but the last. A slice without elements is a failure of
  the tensor library.
\<close>

definition all_but_last :: "'a list \<Rightarrow> error + 'a list" where
  "all_but_last x = (if length x \<le> 1 then Inl TorchError else Inr (butlast x))"

text \<open>\<^verbatim>\<open>NMTModel.forward\<close>.\<close>

definition NMTModel_forward ::
  "nmt_model \<Rightarrow> int list list list \<Rightarrow> int list list \<Rightarrow> int list list option
     \<Rightarrow> (tensor3, tensor2, tensor2) decoder_state option
     \<Rightarrow> error + tensor3 \<times> (string \<times> tensor3) list option
                \<times> (tensor3, tensor2, tensor2) decoder_state option \<times> tensor2 option" where
  "NMTModel_forward M src tgt lengths dec_state =
     bindE (all_but_last tgt) (\<lambda>tgt.
     bindE (Encoder_forward (model_encoder M) src lengths None) (\<lambda>(enc_hidden, context, _).
     bindE (init_decoder_state M context enc_hidden) (\<lambda>enc_state.
     bindE (Decoder_forward (model_decoder M) tgt src context
              (case dec_state of None \<Rightarrow> enc_state | Some s \<Rightarrow> s) None)
       (\<lambda>(out, dec_state', attns, upper_bounds).
          if multigpu M then Inr (out, None, None, upper_bounds)
          else Inr (out, Some attns, Some dec_state', upper_bounds)))))"

section \<open>Decoder states in beam search\<close>

text \<open>
  \<^verbatim>\<open>detach\<close>, \<^verbatim>\<open>repeatBeam_\<close> and \<^verbatim>\<open>beamUpdate_\<close> work on the objects a
  state refers to: a state holds addresses, and the heap is the list of the
  \<^verbatim>\<open>Variable\<close> objects, an address being a position in it. A \<^verbatim>\<open>Variable\<close> has its
  data, of rank 2 or 3, and its link to the graph that computed it: \<open>grad_fn\<close> says that
  it has a history.
\<close>

datatype tdata = Rank2 tensor2 | Rank3 tensor3

record variable =
  data :: tdata
  grad_fn :: bool
  requires_grad :: bool
  volatile :: bool

type_synonym heap = "variable list"

text \<open>\<^verbatim>\<open>h.detach_()\<close> cuts the history of one object; its data stay.\<close>

definition detach_var :: "variable \<Rightarrow> variable" where
  "detach_var x = x\<lparr>grad_fn := False, requires_grad := False\<rparr>"

text \<open>\<^verbatim>\<open>DecoderState.detach\<close>.\<close>

definition detach :: "heap \<Rightarrow> (nat, nat, nat) decoder_state \<Rightarrow> heap" where
  "detach H s =
     fold (\<lambda>h H. case h of None \<Rightarrow> H | Some a \<Rightarrow> H[a := detach_var (H ! a)]) (all_of s) H"

text \<open>
  \<^verbatim>\<open>e.data.repeat(1, beamSize, 1)\<close>: the second dimension is tiled; a tensor of
  rank 2 counts as one of rank 3 with a first dimension of 1.
\<close>

fun repeat_data :: "nat \<Rightarrow> tdata \<Rightarrow> tdata" where
  "repeat_data beamSize (Rank3 t) = Rank3 (map (\<lambda>m. concat (replicate beamSize m)) t)"
| "repeat_data beamSize (Rank2 m) = Rank3 [concat (replicate beamSize m)]"

text \<open>
  \<^verbatim>\<open>DecoderState.repeatBeam_\<close> with \<^verbatim>\<open>RNNDecoderState._resetAll\<close>: every
  object of \<^verbatim>\<open>all\<close> gives a new volatile object with the tiled data, and the hidden
  state and the input feed of the state become the new objects.
  \<^verbatim>\<open>TransformerDecoderState\<close> overrides the method with one that does nothing.
\<close>

definition repeatBeam ::
  "heap \<Rightarrow> (nat, nat, nat) decoder_state \<Rightarrow> nat
     \<Rightarrow> error + heap \<times> (nat, nat, nat) decoder_state" where
  "repeatBeam H s beamSize =
     (case s of
        TransformerDecoderState p \<Rightarrow> Inr (H, s)
      | RNNDecoderState h f c u \<Rightarrow>
          (case f of
             None \<Rightarrow> Inl AttributeError
           | Some fa \<Rightarrow>
               if beamSize = 0 then Inl TorchError
               else
                 let vars = map (\<lambda>a. \<lparr>data = repeat_data beamSize (data (H ! a)),
                                       grad_fn = False, requires_grad = False,
                                       volatile = True\<rparr>) (h @ [fa]);
                     addrs = [length H..<length H + length vars]
                 in Inr (H @ vars, RNNDecoderState (butlast addrs) (Some (last addrs)) c u)))"

text \<open>
  The rows of one beam group. \<open>rows\<close> is the dimension of \<open>br = beamSize * n\<close>
  hypotheses; \<^verbatim>\<open>view(beamSize, br // beamSize, ...)\<close> puts row \<open>k * n + i\<close> at beam
  \<open>k\<close> of sentence \<open>i\<close>, the index \<open>idx\<close> selects a sentence, and \<^verbatim>\<open>copy_\<close> of
  \<^verbatim>\<open>index_select(positions)\<close> writes to beam \<open>k\<close> the old row of beam
  \<open>positions[k]\<close>. A single position is expanded to all beams.
\<close>

definition beam_rows :: "nat \<Rightarrow> nat list \<Rightarrow> nat \<Rightarrow> 'a list \<Rightarrow> error + 'a list" where
  "beam_rows idx positions beamSize rows =
     (if beamSize = 0 then Inl ZeroDivisionError
      else
        let n = length rows div beamSize in
        if beamSize * n \<noteq> length rows \<or> n \<le> idx
           \<or> \<not> list_all (\<lambda>p. p < beamSize) positions
           \<or> (length positions \<noteq> beamSize \<and> length positions \<noteq> 1)
        then Inl TorchError
        else Inr (map (\<lambda>r. if r mod n = idx
                            then rows ! (positions ! (if length positions = 1 then 0
                                                      else r div n) * n + idx)
                            else rows ! r) [0..<length rows]))"

fun beam_layers :: "nat \<Rightarrow> nat list \<Rightarrow> nat \<Rightarrow> 'a list list \<Rightarrow> error + 'a list list" where
  "beam_layers idx positions beamSize [] = Inr []"
| "beam_layers idx positions beamSize (m # ms) =
     bindE (beam_rows idx positions beamSize m) (\<lambda>m'.
     bindE (beam_layers idx positions beamSize ms) (\<lambda>ms'. Inr (m' # ms')))"

text \<open>\<^verbatim>\<open>DecoderState.beamUpdate_\<close>: the loop over \<^verbatim>\<open>all\<close>.\<close>

fun beamUpdate_all :: "heap \<Rightarrow> nat option list \<Rightarrow> nat \<Rightarrow> nat list \<Rightarrow> nat \<Rightarrow> error + heap" where
  "beamUpdate_all H [] idx positions beamSize = Inr H"
| "beamUpdate_all H (None # es) idx positions beamSize = Inl AttributeError"
| "beamUpdate_all H (Some a # es) idx positions beamSize =
     (case data (H ! a) of
        Rank2 _ \<Rightarrow> Inl ValueError
      | Rank3 t \<Rightarrow>
          bindE (beam_layers idx positions beamSize t) (\<lambda>t'.
            beamUpdate_all (H[a := (H ! a)\<lparr>data := Rank3 t'\<rparr>]) es idx positions beamSize))"

text \<open>
  \<^verbatim>\<open>RNNDecoderState.beamUpdate_\<close>: the method of the base class, then the budget.
  For a \<^verbatim>\<open>TransformerDecoderState\<close> it is the method of the base class.
\<close>

definition beamUpdate ::
  "heap \<Rightarrow> (nat, nat, nat) decoder_state \<Rightarrow> nat \<Rightarrow> nat list \<Rightarrow> nat \<Rightarrow> error + heap" where
  "beamUpdate H s idx positions beamSize =
     bindE (beamUpdate_all H (all_of s) idx positions beamSize) (\<lambda>H'.
       case s of
         RNNDecoderState h f c (Some u) \<Rightarrow>
           (case data (H' ! u) of
              Rank3 _ \<Rightarrow> Inl ValueError
            | Rank2 rows \<Rightarrow>
                bindE (beam_rows idx positions beamSize rows) (\<lambda>rows'.
                  Inr (H'[u := (H' ! u)\<lparr>data := Rank2 rows'\<rparr>])))
       | _ \<Rightarrow> Inr H')"

text \<open>
  A heap for the examples: two hidden tensors, an input feed, a coverage and a budget,
  all for two hypotheses (one sentence, a beam of two), and a state over it.
\<close>

definition ex_heap :: heap where
  "ex_heap =
     [\<lparr>data = Rank3 [[[1], [2]]], grad_fn = True, requires_grad = True, volatile = False\<rparr>,
      \<lparr>data = Rank3 [[[3], [4]]], grad_fn = True, requires_grad = True, volatile = False\<rparr>,
      \<lparr>data = Rank3 [[[5], [6]]], grad_fn = True, requires_grad = True, volatile = False\<rparr>,
      \<lparr>data = Rank3 [[[7, 8], [9, 10]]], grad_fn = True, requires_grad = True,
       volatile = False\<rparr>,
      \<lparr>data = Rank2 [[1, 100], [2, 100]], grad_fn = True, requires_grad = True,
       volatile = False\<rparr>]"

definition ex_beam_state :: "(nat, nat, nat) decoder_state" where
  "ex_beam_state = RNNDecoderState [0, 1] (Some 2) (Some 3) (Some 4)"

section \<open>A small decoder\<close>

text \<open>
  A decoder for worked examples: the cell returns its input, the attention spreads the
  weight evenly over the source positions and returns the query as its output, the
  copy attention gives weight one everywhere, no dropout, fertility 2. The input has two
  steps, the batch one sentence, the source two positions (the second is the sink).
\<close>

definition ex_embeddings :: embeddings where
  "ex_embeddings =
     \<lparr>positional_encoding = False, pe = [],
      word_lut = (\<lambda>w. [real_of_int w]), emb_dropout = (\<lambda>_ _ _. 1)\<rparr>"

definition ex_decoder :: "bool \<Rightarrow> bool \<Rightarrow> bool \<Rightarrow> decoder" where
  "ex_decoder cov cp ex =
     \<lparr>dec_coverage = cov, dec_copy = cp, dec_exhaustion_loss = ex, dec_input_feed = False,
      dec_fertility = 2, dec_hidden_size = 1, dec_embeddings = ex_embeddings,
      dec_rnn = (\<lambda>i x h. (x, h)),
      dec_attn = (\<lambda>q c ub. (q, map (\<lambda>row. map (\<lambda>_. 1 / 2) row) ub)),
      dec_copy_attn = (\<lambda>q c. (q, map (\<lambda>row. [1, 1]) q)),
      dec_context_gate = None,
      dec_dropout = (\<lambda>_ _ _. 1)\<rparr>"

definition ex_input :: "int list list" where
  "ex_input = [[5], [7]]"

definition ex_src :: "int list list list" where
  "ex_src = [[[1]], [[2]]]"

definition ex_context :: tensor3 where
  "ex_context = [[[0]], [[0]]]"

definition ex_state :: "(tensor3, tensor2, tensor2) decoder_state" where
  "ex_state = RNNDecoderState [] (Some [[[0]]]) None None"

text \<open>
  An encoder for the same examples: one direction, one layer; its network returns the
  embedded source as the memory bank and the first source step as the hidden state.
\<close>

definition ex_encoder :: encoder where
  "ex_encoder =
     \<lparr>enc_layers = 1, enc_num_directions = 1, enc_hidden_size = 1,
      enc_embeddings = ex_embeddings,
      enc_rnn = (\<lambda>emb lens h. (emb, [take 1 emb])),
      enc_unpack = (\<lambda>x. x)\<rparr>"

definition ex_model :: nmt_model where
  "ex_model =
     \<lparr>multigpu = False, model_encoder = ex_encoder,
      model_decoder = ex_decoder False False False\<rparr>"

section \<open>Properties\<close>

lemma bindE_simps [simp]: "bindE (Inr x) f = f x" "bindE (Inl e) f = Inl e"
  by (simp_all add: bindE_def)

lemma bindE_eq_Inr: "bindE m f = Inr y \<longleftrightarrow> (\<exists>x. m = Inr x \<and> f x = Inr y)"
  by (cases m) auto

text \<open>The definitions a run on concrete values unfolds.\<close>

lemmas run_defs =
  decoder_steps_def decoder_setup_def Decoder_forward_def decoder_step_def
  step_upper_bounds_def coverage_step_def copy_step_def exhaustion_step_def
  Embeddings_forward_def feature0_def size2_def size3_def aeq_def squeeze0_def
  init_attns_def set_sink_def isub_def add2_def cat_dim1_def stack_def tensor_bool_def
  dropout2_def dict_append_def write_upper_bounds_def
  ex_decoder_def ex_embeddings_def ex_input_def ex_src_def ex_context_def ex_state_def

subsection \<open>Sizes and checks\<close>

lemma size2_Inr: "size2 x = Inr (a, b) \<Longrightarrow> a = length x \<and> x \<noteq> [] \<and> b = length (hd x)"
  by (auto simp: size2_def split: list.splits)

lemma size3_Inr:
  "size3 x = Inr (a, b, c) \<Longrightarrow> a = length x \<and> x \<noteq> [] \<and> b = length (hd x) \<and> 0 < b"
  by (auto simp: size3_def split: list.splits)

lemma aeq_Inr: "aeq (a # as) = Inr u \<longleftrightarrow> list_all (\<lambda>x. x = a) as"
  by (simp add: aeq_def)

lemma aeq_Inl:
  "aeq (a # as) = Inl e \<longleftrightarrow> e = AssertionError \<and> \<not> list_all (\<lambda>x. x = a) as"
  by (auto simp: aeq_def)

lemma length_dropout2 [simp]: "length (dropout2 m x) = length x"
  by (simp add: dropout2_def)

lemma length_dropout3 [simp]: "length (dropout3 m x) = length x"
  by (simp add: dropout3_def)

lemma Embeddings_forward_length:
  "Embeddings_forward E x = Inr emb \<Longrightarrow> length emb = length x"
  by (auto simp: Embeddings_forward_def feature0_def bindE_eq_Inr Let_def
      split: if_splits dest!: size3_Inr)

subsection \<open>The dictionary of attention lists\<close>

lemma dict_append_keys: "dict_append a k x = Inr a' \<Longrightarrow> map fst a' = map fst a"
  by (force simp: dict_append_def update_keys split: option.splits dest!: map_of_SomeD)

lemma dict_append_same:
  "dict_append a k x = Inr a' \<Longrightarrow> \<exists>l. map_of a k = Some l \<and> map_of a' k = Some (l @ [x])"
  by (auto simp: dict_append_def update_conv' split: option.splits)

lemma dict_append_std:
  "dict_append a k x = Inr a' \<Longrightarrow> k \<noteq> ''std'' \<Longrightarrow> map_of a' ''std'' = map_of a ''std''"
  by (auto simp: dict_append_def update_conv' split: option.splits)

lemma write_upper_bounds_keys: "map fst (write_upper_bounds ub a) = map fst a"
  by (induction a) (auto simp: write_upper_bounds_def)

lemma write_upper_bounds_other:
  "k \<noteq> ''upper_bounds'' \<Longrightarrow> map_of (write_upper_bounds ub a) k = map_of a k"
  by (induction a) (auto simp: write_upper_bounds_def)

lemma coverage_step_keys:
  "coverage_step d c attn a = Inr r \<Longrightarrow> map fst (snd r) = map fst a"
  by (auto simp: coverage_step_def bindE_eq_Inr split: if_splits dest: dict_append_keys)

lemma coverage_step_std:
  "coverage_step d c attn a = Inr r \<Longrightarrow> map_of (snd r) ''std'' = map_of a ''std''"
  by (auto simp: coverage_step_def bindE_eq_Inr split: if_splits dest!: dict_append_std)

lemma copy_step_keys: "copy_step d out ctx a = Inr a' \<Longrightarrow> map fst a' = map fst a"
  by (auto simp: copy_step_def split: if_splits dest: dict_append_keys)

lemma copy_step_std: "copy_step d out ctx a = Inr a' \<Longrightarrow> map_of a' ''std'' = map_of a ''std''"
  by (auto simp: copy_step_def split: if_splits dest!: dict_append_std)

lemma exhaustion_step_keys: "exhaustion_step d ub a = Inr a' \<Longrightarrow> map fst a' = map fst a"
  by (auto simp: exhaustion_step_def split: if_splits dest: dict_append_keys)

lemma exhaustion_step_std:
  "exhaustion_step d ub a = Inr a' \<Longrightarrow> map_of a' ''std'' = map_of a ''std''"
  by (auto simp: exhaustion_step_def split: if_splits dest!: dict_append_std)

subsection \<open>One step, the loop and the set-up\<close>

lemma decoder_step_facts:
  assumes "decoder_step d context n_batch s_len (i, e) v = Inr v'"
  shows "\<exists>ub1 ub2 emb_t attn.
      step_upper_bounds d n_batch s_len (v_upper_bounds v) = Inr ub1 \<and>
      (if dec_input_feed d then cat_dim1 e (v_output v) else Inr e) = Inr emb_t \<and>
      attn = snd (dec_attn d (fst (dec_rnn d i emb_t (v_hidden v))) (transpose context) ub1) \<and>
      isub ub1 attn = Inr ub2 \<and>
      v_upper_bounds v' = Some ub2 \<and>
      v_attn_calls v' = v_attn_calls v @ [ub1] \<and>
      v_hidden v' = snd (dec_rnn d i emb_t (v_hidden v)) \<and>
      v_outputs v' = v_outputs v @ [v_output v'] \<and>
      map fst (v_attns v') = map fst (v_attns v) \<and>
      (\<exists>l. map_of (v_attns v) ''std'' = Some l \<and> map_of (v_attns v') ''std'' = Some (l @ [attn]))"
  using assms unfolding decoder_step_def Let_def
  apply (clarsimp simp: bindE_eq_Inr case_prod_beta)
  apply (frule dict_append_same)
  apply (frule dict_append_keys)
  apply (frule coverage_step_keys)
  apply (frule coverage_step_std)
  apply (frule copy_step_keys)
  apply (frule copy_step_std)
  apply (frule exhaustion_step_keys)
  apply (frule exhaustion_step_std)
  apply (auto simp: write_upper_bounds_keys write_upper_bounds_other split: if_splits)
  done

lemma decoder_setup_facts:
  assumes "decoder_setup d input src context state upper_bounds = Inr (emb, nb, sl, v)"
  shows "Embeddings_forward (dec_embeddings d) (map (map (\<lambda>w. [w])) input) = Inr emb \<and>
         length emb = length input \<and> input \<noteq> [] \<and> nb = length (hd input) \<and>
         sl = length context \<and> context \<noteq> [] \<and>
         v_upper_bounds v = upper_bounds \<and> v_attn_calls v = [] \<and> v_outputs v = [] \<and>
         v_attns v = init_attns d \<and>
         (\<exists>h f c u. state = RNNDecoderState h (Some [v_output v]) c u \<and> v_hidden v = h \<and>
            v_coverage v = c)"
proof (cases state)
  case (TransformerDecoderState p)
  with assms show ?thesis
    by (auto simp: decoder_setup_def bindE_eq_Inr)
next
  case (RNNDecoderState h feed c u)
  show ?thesis
  proof (cases feed)
    case None
    with assms RNNDecoderState show ?thesis
      by (auto simp: decoder_setup_def bindE_eq_Inr)
  next
    case (Some f)
    with assms RNNDecoderState obtain out where "squeeze0 f = Inr out"
      by (auto simp: decoder_setup_def bindE_eq_Inr)
    then have f: "f = [out]" by (auto simp: squeeze0_def split: list.splits)
    from assms show ?thesis
      unfolding decoder_setup_def RNNDecoderState Some f
      by (auto simp: bindE_eq_Inr squeeze0_def aeq_Inr
          dest!: size2_Inr size3_Inr dest: Embeddings_forward_length)
  qed
qed

lemma set_sink_last:
  "set_sink u = Inr ub \<Longrightarrow> list_all (\<lambda>row. row \<noteq> [] \<and> last row = 100) ub"
  by (auto simp: set_sink_def list_all_iff split: if_splits)

lemma decoder_step_calls:
  assumes "decoder_step d context n_batch s_len ie v = Inr v'"
  shows "\<exists>ub. v_attn_calls v' = v_attn_calls v @ [ub] \<and>
           list_all (\<lambda>row. row \<noteq> [] \<and> last row = 100) ub"
proof -
  obtain i e where ie: "ie = (i, e)" by (cases ie)
  from decoder_step_facts[OF assms[unfolded ie]] show ?thesis
    by (auto simp: step_upper_bounds_def dest: set_sink_last)
qed

lemma decoder_loop_calls:
  "decoder_loop d context n_batch s_len steps v = Inr v' \<Longrightarrow>
     \<exists>new. v_attn_calls v' = v_attn_calls v @ new \<and> length new = length steps \<and>
       list_all (list_all (\<lambda>row. row \<noteq> [] \<and> last row = 100)) new"
proof (induction steps arbitrary: v)
  case Nil
  then show ?case by simp
next
  case (Cons ie steps)
  from Cons.prems obtain v1 where s: "decoder_step d context n_batch s_len ie v = Inr v1"
    and l: "decoder_loop d context n_batch s_len steps v1 = Inr v'"
    by (auto simp: bindE_eq_Inr)
  from decoder_step_calls[OF s] obtain ub where
    u: "v_attn_calls v1 = v_attn_calls v @ [ub]"
       "list_all (\<lambda>row. row \<noteq> [] \<and> last row = 100) ub" by blast
  from Cons.IH[OF l] obtain new where
    n: "v_attn_calls v' = v_attn_calls v1 @ new" "length new = length steps"
       "list_all (list_all (\<lambda>row. row \<noteq> [] \<and> last row = 100)) new" by blast
  show ?case
    by (rule exI[of _ "ub # new"]) (use u n in simp)
qed

subsection \<open>The sink before every attention computation\<close>

text \<open>
  Claim C1. Take any call of the decoder, with or without a budget supplied, and stop it
  after any number \<open>n\<close> of steps. Every one of those steps has called the attention
  layer once, and the budget each call was given has, in every row (every batch
  element), a last entry, the sink, equal to 100: whatever the earlier steps subtracted
  from the sink or from any other position.
\<close>

theorem sink_is_reset_before_every_attention:
  assumes "decoder_steps d input src context state upper_bounds n = Inr v"
  shows "length (v_attn_calls v) = min n (length input) \<and>
         list_all (list_all (\<lambda>row. row \<noteq> [] \<and> last row = 100)) (v_attn_calls v)"
proof -
  from assms obtain emb nb sl v0 where
    su: "decoder_setup d input src context state upper_bounds = Inr (emb, nb, sl, v0)"
    and lo: "decoder_loop d context nb sl (take n (enumerate 0 emb)) v0 = Inr v"
    by (auto simp: decoder_steps_def bindE_eq_Inr)
  from decoder_setup_facts[OF su] have e: "length emb = length input" "v_attn_calls v0 = []"
    by auto
  from decoder_loop_calls[OF lo] e show ?thesis by auto
qed

theorem sink_is_reset_before_every_attention_witness:
  "decoder_steps (ex_decoder False False False) ex_input ex_src ex_context ex_state None 2
     = Inr \<lparr>v_upper_bounds = Some [[1, 199 / 2]], v_output = [[7]], v_hidden = [],
            v_coverage = None, v_outputs = [[[5]], [[7]]],
            v_attns = [(''std'', [[[1 / 2, 1 / 2]], [[1 / 2, 1 / 2]]])],
            v_attn_calls = [[[2, 100]], [[3 / 2, 100]]]\<rparr> \<and>
   length [[[2, 100]], [[3 / 2, 100 :: real]]] = min 2 (length ex_input) \<and>
   list_all (list_all (\<lambda>row. row \<noteq> [] \<and> last row = 100)) [[[2, 100]], [[3 / 2, 100 :: real]]]"
  using sink_is_reset_before_every_attention
    [of "ex_decoder False False False" ex_input ex_src ex_context ex_state None 2]
  by (simp add: run_defs Let_def)

subsection \<open>Strided slices and concatenation\<close>

lemma stride2_length_even: "length (stride2 xs) = (length xs + 1) div 2"
  by (induction xs rule: stride2.induct) auto

lemma stride2_nth: "i < (length xs + 1) div 2 \<Longrightarrow> stride2 xs ! i = xs ! (2 * i)"
proof (induction xs arbitrary: i rule: stride2.induct)
  case (3 x y zs)
  then show ?case by (cases i) auto
qed auto

lemma stride2_subset: "set (stride2 xs) \<subseteq> set xs"
  by (induction xs rule: stride2.induct) auto

lemma cat_dim2_shape:
  assumes x: "has_shape3 a b c x" and y: "has_shape3 a b d y" and a: "0 < a"
  shows "\<exists>z. cat_dim2 x y = Inr z \<and> has_shape3 a b (c + d) z \<and>
           (\<forall>i<a. \<forall>k<b. z ! i ! k = x ! i ! k @ y ! i ! k)"
proof -
  have lx: "length x = a" and ly: "length y = a" using x y by (auto simp: has_shape3_def)
  have ml: "map length x = map length y"
    using x y by (auto simp: has_shape3_def list_all_length intro!: nth_equalityI)
  have ne: "x \<noteq> []" using lx a by auto
  let ?z = "map2 (map2 (@)) x y"
  have eq: "cat_dim2 x y = Inr ?z" using ml ne by (simp add: cat_dim2_def)
  have sh: "has_shape3 a b (c + d) ?z"
    using x y by (auto simp: has_shape3_def list_all_length)
  have el: "\<forall>i<a. \<forall>k<b. ?z ! i ! k = x ! i ! k @ y ! i ! k"
    using x y by (auto simp: has_shape3_def list_all_length)
  show ?thesis using eq sh el by blast
qed

lemma stride2_shape:
  "has_shape3 (2 * n) b c h \<Longrightarrow> has_shape3 n b c (stride2 h)"
  using stride2_subset[of h]
  by (auto simp: has_shape3_def list_all_iff stride2_length_even)

lemma stride2_drop_shape:
  "has_shape3 (2 * n) b c h \<Longrightarrow> has_shape3 n b c (stride2 (drop 1 h))"
  using stride2_subset[of "drop 1 h"] set_drop_subset[of 1 h]
  by (auto simp: has_shape3_def list_all_iff stride2_length_even)

subsection \<open>The bidirectional encoder's hidden state\<close>

text \<open>
  Claim C8. Let the encoder be built from its options, and let \<open>h\<close> have the shape
  (layers * directions) \<open>\<times>\<close> batch \<open>\<times>\<close> width per direction, with at least one layer. For a
  bidirectional encoder \<^verbatim>\<open>_fix_enc_hidden\<close> returns a tensor of shape layers \<open>\<times>\<close> batch
  \<open>\<times>\<close> \<open>rnn_size\<close>, the configured hidden width, in which layer \<open>l\<close> holds, for every
  batch element, the channels of slice \<open>2 l\<close> (even) followed by those of slice
  \<open>2 l + 1\<close> (odd). For a unidirectional encoder it returns \<open>h\<close> itself.
\<close>

theorem fix_enc_hidden_layout:
  assumes init: "Encoder_init opt = Inr enc"
    and shape: "has_shape3 (enc_layers enc * enc_num_directions enc) b (enc_hidden_size enc) h"
    and pos: "0 < enc_layers enc"
  shows "if opt_brnn opt
         then (\<exists>h'. fix_enc_hidden (enc_num_directions enc) h = Inr h' \<and>
                 has_shape3 (enc_layers enc) b (opt_rnn_size opt) h' \<and>
                 (\<forall>l<enc_layers enc. \<forall>k<b.
                    h' ! l ! k = h ! (2 * l) ! k @ h ! (2 * l + 1) ! k))
         else fix_enc_hidden (enc_num_directions enc) h = Inr h"
proof (cases "opt_brnn opt")
  case False
  then have "enc_num_directions enc = 1"
    using init by (auto simp: Encoder_init_def Let_def split: if_splits)
  then show ?thesis using False by (simp add: fix_enc_hidden_def)
next
  case True
  then have nd: "enc_num_directions enc = 2"
    and hs: "2 * enc_hidden_size enc = opt_rnn_size opt"
    using init by (auto simp: Encoder_init_def Let_def split: if_splits)
  let ?n = "enc_layers enc" and ?w = "enc_hidden_size enc"
  have sh: "has_shape3 (2 * ?n) b ?w h" using shape nd by (simp add: mult.commute)
  have len: "length h = 2 * ?n" using sh by (simp add: has_shape3_def)
  from cat_dim2_shape[OF stride2_shape[OF sh] stride2_drop_shape[OF sh] pos]
  obtain z where z: "cat_dim2 (stride2 h) (stride2 (drop 1 h)) = Inr z"
    and zs: "has_shape3 ?n b (?w + ?w) z"
    and ze: "\<forall>i<?n. \<forall>k<b. z ! i ! k = stride2 h ! i ! k @ stride2 (drop 1 h) ! i ! k"
    by blast
  have ev: "stride2 h ! l = h ! (2 * l)" if "l < ?n" for l
    using that len by (simp add: stride2_nth)
  have od: "stride2 (drop 1 h) ! l = h ! (2 * l + 1)" if "l < ?n" for l
    using that len by (simp add: stride2_nth add.commute)
  have "fix_enc_hidden (enc_num_directions enc) h = Inr z"
    using nd z by (simp add: fix_enc_hidden_def)
  moreover have "has_shape3 ?n b (opt_rnn_size opt) z" using zs hs by (simp add: mult_2)
  moreover have "\<forall>l<?n. \<forall>k<b. z ! l ! k = h ! (2 * l) ! k @ h ! (2 * l + 1) ! k"
    using ze ev od by simp
  ultimately show ?thesis using True by auto
qed

theorem fix_enc_hidden_layout_witness:
  "Encoder_init \<lparr>opt_layers = 1, opt_brnn = True, opt_rnn_size = 4\<rparr>
     = Inr \<lparr>enc_layers = 1, enc_num_directions = 2, enc_hidden_size = 2\<rparr> \<and>
   has_shape3 (1 * 2) 1 2 [[[1, 2]], [[3, 4 :: real]]] \<and>
   fix_enc_hidden 2 [[[1, 2]], [[3, 4]]] = Inr [[[1, 2, 3, 4]]]"
  using fix_enc_hidden_layout [of "\<lparr>opt_layers = 1, opt_brnn = True, opt_rnn_size = 4\<rparr>"
      "\<lparr>enc_layers = 1, enc_num_directions = 2, enc_hidden_size = 2\<rparr>" 1
      "[[[1, 2]], [[3, 4]]]"]
  by (simp add: Encoder_init_def has_shape3_def fix_enc_hidden_def cat_dim2_def)

lemma bindE_eq_Inl:
  "bindE m f = Inl e \<longleftrightarrow> m = Inl e \<or> (\<exists>x. m = Inr x \<and> f x = Inl e)"
  by (cases m) auto

lemma decoder_step_keys:
  assumes "decoder_step d context n_batch s_len ie v = Inr v'"
  shows "map fst (v_attns v') = map fst (v_attns v)"
proof -
  obtain i e where ie: "ie = (i, e)" by (cases ie)
  from decoder_step_facts[OF assms[unfolded ie]] show ?thesis by auto
qed

lemma decoder_loop_keys:
  "decoder_loop d context n_batch s_len steps v = Inr v' \<Longrightarrow>
     map fst (v_attns v') = map fst (v_attns v)"
  by (induction steps arbitrary: v) (auto simp: bindE_eq_Inr dest: decoder_step_keys)

lemma stack_all_keys: "stack_all a = Inr r \<Longrightarrow> map fst r = map fst a"
  by (induction a arbitrary: r rule: stack_all.induct) (auto simp: bindE_eq_Inr)

lemma decoder_steps_keys:
  assumes "decoder_steps d input src context state ub n = Inr v"
  shows "map fst (v_attns v) = map fst (init_attns d)"
proof -
  from assms obtain emb nb sl v0 where
    su: "decoder_setup d input src context state ub = Inr (emb, nb, sl, v0)"
    and lo: "decoder_loop d context nb sl (take n (enumerate 0 emb)) v0 = Inr v"
    by (auto simp: decoder_steps_def bindE_eq_Inr)
  from decoder_setup_facts[OF su] decoder_loop_keys[OF lo] show ?thesis by simp
qed

subsection \<open>The keys of the attention maps\<close>

text \<open>
  Claim C6. Whenever the decoder returns, the dictionary of attention maps has the key
  \<open>std\<close>; it has \<open>copy\<close> exactly when copy attention is configured, \<open>coverage\<close>
  exactly when coverage is, and \<open>upper_bounds\<close> exactly when the exhaustion loss is;
  it has no other key and no key twice. With none of the three configured its keys are
  \<open>std\<close> alone.
\<close>

theorem attention_map_keys:
  assumes "Decoder_forward d input src context state ub = Inr (outputs, state', attns, ub')"
  shows "''std'' \<in> fst ` set attns \<and>
         (''copy'' \<in> fst ` set attns \<longleftrightarrow> dec_copy d) \<and>
         (''coverage'' \<in> fst ` set attns \<longleftrightarrow> dec_coverage d) \<and>
         (''upper_bounds'' \<in> fst ` set attns \<longleftrightarrow> dec_exhaustion_loss d) \<and>
         fst ` set attns \<subseteq> {''std'', ''copy'', ''coverage'', ''upper_bounds''} \<and>
         distinct (map fst attns) \<and>
         (if dec_copy d \<or> dec_coverage d \<or> dec_exhaustion_loss d then 1 < length attns
          else map fst attns = [''std''])"
proof -
  from assms obtain v where
    st: "decoder_steps d input src context state ub (length input) = Inr v"
    and sa: "stack_all (v_attns v) = Inr attns"
    by (auto simp: Decoder_forward_def bindE_eq_Inr Let_def)
  have k: "map fst attns = map fst (init_attns d)"
    using stack_all_keys[OF sa] decoder_steps_keys[OF st] by simp
  have s: "fst ` set attns = set (map fst (init_attns d))"
    using k by (metis set_map)
  have l: "length attns = length (init_attns d)"
    using k by (metis length_map)
  show ?thesis
    unfolding s k l by (simp add: init_attns_def)
qed

theorem attention_map_keys_witness:
  "Decoder_forward (ex_decoder False True True) ex_input ex_src ex_context ex_state None
     = Inr ([[[5]], [[7]]],
            RNNDecoderState [] (Some [[[7]]]) None (Some [[1, 199 / 2]]),
            [(''std'', [[[1 / 2, 1 / 2]], [[1 / 2, 1 / 2]]]),
             (''copy'', [[[1, 1]], [[1, 1]]]),
             (''upper_bounds'', [[[1, 199 / 2]], [[1, 199 / 2]]])],
            Some [[1, 199 / 2]]) \<and>
   map fst [(''std'', [[[1 / 2, 1 / 2]], [[1 / 2, 1 / 2]]]),
            (''copy'', [[[1, 1]], [[1, 1]]]),
            (''upper_bounds'', [[[1, 199 / 2]], [[1, 199 / 2 :: real]]])]
     = [''std'', ''copy'', ''upper_bounds'']"
  using attention_map_keys
    [of "ex_decoder False True True" ex_input ex_src ex_context ex_state None]
  by (simp add: run_defs Let_def)

subsection \<open>No assertion inside the loop\<close>

lemma prim_not_assert:
  "set_sink u \<noteq> Inl AssertionError" "cat_dim1 x y \<noteq> Inl AssertionError"
  "isub a b \<noteq> Inl AssertionError" "add2 a b \<noteq> Inl AssertionError"
  "tensor_bool a \<noteq> Inl AssertionError" "dict_append al k z \<noteq> Inl AssertionError"
  "stack xs \<noteq> Inl AssertionError"
  by (auto simp: set_sink_def cat_dim1_def isub_def add2_def tensor_bool_def dict_append_def
      stack_def split: option.splits list.splits)

lemma blocks_not_assert:
  "step_upper_bounds d nb sl u \<noteq> Inl AssertionError"
  "coverage_step d c attn a \<noteq> Inl AssertionError"
  "copy_step d out ctx a \<noteq> Inl AssertionError"
  "exhaustion_step d ub a \<noteq> Inl AssertionError"
  by (auto simp: step_upper_bounds_def coverage_step_def copy_step_def exhaustion_step_def
      bindE_eq_Inl prim_not_assert split: option.splits if_splits)

lemma decoder_step_not_assert: "decoder_step d context nb sl ie v \<noteq> Inl AssertionError"
  unfolding decoder_step_def Let_def
  by (auto simp: bindE_eq_Inl prim_not_assert blocks_not_assert case_prod_beta split: if_splits)

lemma decoder_loop_not_assert: "decoder_loop d context nb sl steps v \<noteq> Inl AssertionError"
  by (induction steps arbitrary: v) (auto simp: bindE_eq_Inl decoder_step_not_assert)

lemma stack_all_not_assert: "stack_all a \<noteq> Inl AssertionError"
  by (induction a rule: stack_all.induct) (auto simp: bindE_eq_Inl prim_not_assert)


lemma Embeddings_not_assert: "Embeddings_forward E x \<noteq> Inl AssertionError"
  by (auto simp: Embeddings_forward_def feature0_def size3_def bindE_eq_Inl Let_def
      split: list.splits)

subsection \<open>The checks at the entry of the decoder\<close>

text \<open>
  Claim C3. Let the sizes of the target input, the source and the memory bank unpack,
  and let the embedding of the input succeed (these come before the checks in the code).
  A state that is not an \<^verbatim>\<open>RNNDecoderState\<close> makes the decoder fail with an
  assertion. For a recurrent state with an input feed, the decoder fails with an
  assertion unless the batch sizes of target, source, memory bank and input feed are all
  equal; when they are equal the code before the loop succeeds, and the call does not end
  in an assertion. The failures are those of \<open>decoder_setup\<close>, the code before the
  loop: no step has run.
\<close>

theorem decoder_entry_checks:
  assumes i: "size2 input = Inr (t_len, b0)"
    and s: "size3 src = Inr (s_len, b1, f1)"
    and c: "size3 context = Inr (s_len', b2, f2)"
    and e: "Embeddings_forward (dec_embeddings d) (map (map (\<lambda>w. [w])) input) = Inr emb"
    and f: "size2 feed = Inr (b3, w)"
  shows "decoder_setup d input src context (TransformerDecoderState p) ub = Inl AssertionError \<and>
         Decoder_forward d input src context (TransformerDecoderState p) ub = Inl AssertionError \<and>
         (if b0 = b1 \<and> b0 = b2 \<and> b0 = b3
          then (\<exists>r. decoder_setup d input src context (RNNDecoderState h (Some [feed]) cv u) ub
                      = Inr r) \<and>
               Decoder_forward d input src context (RNNDecoderState h (Some [feed]) cv u) ub
                 \<noteq> Inl AssertionError
          else decoder_setup d input src context (RNNDecoderState h (Some [feed]) cv u) ub
                 = Inl AssertionError \<and>
               Decoder_forward d input src context (RNNDecoderState h (Some [feed]) cv u) ub
                 = Inl AssertionError)"
proof -
  have t: "decoder_setup d input src context (TransformerDecoderState p) ub = Inl AssertionError"
    using i s c e by (simp add: decoder_setup_def aeq_def)
  have t': "Decoder_forward d input src context (TransformerDecoderState p) ub = Inl AssertionError"
    using t by (simp add: Decoder_forward_def decoder_steps_def)
  let ?st = "RNNDecoderState h (Some [feed]) cv u"
  show ?thesis
  proof (cases "b0 = b1 \<and> b0 = b2 \<and> b0 = b3")
    case True
    then obtain r where r: "decoder_setup d input src context ?st ub = Inr r"
      using i s c e f by (simp add: decoder_setup_def aeq_def squeeze0_def)
    have "Decoder_forward d input src context ?st ub \<noteq> Inl AssertionError"
      using r
      by (auto simp: Decoder_forward_def decoder_steps_def bindE_eq_Inl Let_def
          decoder_loop_not_assert stack_all_not_assert prim_not_assert split: prod.splits)
    moreover have "\<exists>r. decoder_setup d input src context ?st ub = Inr r"
      using r by blast
    ultimately show ?thesis using t t' True by simp
  next
    case False
    then have r: "decoder_setup d input src context ?st ub = Inl AssertionError"
      using i s c e f by (auto simp: decoder_setup_def aeq_def squeeze0_def)
    then have "Decoder_forward d input src context ?st ub = Inl AssertionError"
      by (simp add: Decoder_forward_def decoder_steps_def)
    with r t t' False show ?thesis by auto
  qed
qed

theorem decoder_entry_checks_witness:
  "size2 ex_input = Inr (2, 1) \<and> size3 ex_src = Inr (2, 1, 1) \<and>
   size3 ex_context = Inr (2, 1, 1) \<and>
   Embeddings_forward (dec_embeddings (ex_decoder False False False))
     (map (map (\<lambda>w. [w])) ex_input) = Inr [[[5]], [[7]]] \<and>
   size2 [[0 :: real], [0]] = Inr (2, 1) \<and>
   Decoder_forward (ex_decoder False False False) ex_input ex_src ex_context
     (TransformerDecoderState None) None = Inl AssertionError \<and>
   Decoder_forward (ex_decoder False False False) ex_input ex_src ex_context
     (RNNDecoderState [] (Some [[[0], [0]]]) None None) None = Inl AssertionError"
  using decoder_entry_checks
    [of ex_input 2 1 ex_src 2 1 1 ex_context 2 1 1 "ex_decoder False False False"
        "[[[5]], [[7]]]" "[[0], [0]]" 2 1 None None "[]" None None]
  by (simp add: run_defs Let_def)

subsection \<open>The budget through the loop\<close>

lemma butlast_replicate_eq: "butlast (replicate n x) = replicate (n - 1) x"
proof (cases n)
  case (Suc m)
  have "replicate (Suc m) x = replicate m x @ [x]" by (simp add: replicate_append_same)
  then show ?thesis using Suc by (simp del: replicate_Suc)
qed simp

lemma set_sink_shape:
  assumes "set_sink u = Inr ub" "has_shape2 B S u"
  shows "has_shape2 B S ub \<and> (\<forall>b<B. \<forall>j<S - 1. ub ! b ! j = u ! b ! j) \<and>
         (\<forall>b<B. 0 < S \<and> ub ! b ! (S - 1) = 100)"
proof -
  from assms(1) have ne: "[] \<notin> set u" and ub: "ub = map (\<lambda>row. butlast row @ [100]) u"
    by (auto simp: set_sink_def split: if_splits)
  from assms(2) have lu: "length u = B" and rows: "\<And>b. b < B \<Longrightarrow> length (u ! b) = S"
    by (auto simp: has_shape2_def list_all_length)
  have pos: "0 < S" if "b < B" for b
    using ne rows[OF that] nth_mem[of b u] that lu by (cases "u ! b") auto
  have "length (ub ! b) = S" if "b < B" for b
    using that lu rows[OF that] pos[OF that] by (simp add: ub)
  moreover have "ub ! b ! j = u ! b ! j" if "b < B" "j < S - 1" for b j
    using that lu rows[OF that(1)] by (simp add: ub nth_append nth_butlast)
  moreover have "ub ! b ! (S - 1) = 100" if "b < B" for b
    using that lu rows[OF that] pos[OF that] by (simp add: ub nth_append)
  ultimately show ?thesis
    using lu pos by (simp add: has_shape2_def list_all_length ub)
qed

lemma isub_shape:
  assumes "isub x y = Inr z" "has_shape2 B S x"
  shows "has_shape2 B S z \<and> has_shape2 B S y \<and> (\<forall>b<B. \<forall>j<S. z ! b ! j = x ! b ! j - y ! b ! j)"
proof -
  from assms have ml: "map length x = map length y" and z: "z = map2 (map2 (-)) x y"
    by (auto simp: isub_def split: if_splits)
  from ml have ly: "length y = length x" by (metis length_map)
  have rows: "length (y ! b) = length (x ! b)" if "b < length x" for b
    using ml that ly by (metis nth_map)
  show ?thesis
    using assms(2) ly rows unfolding z
    by (auto simp: has_shape2_def list_all_length)
qed

lemma decoder_step_budget:
  assumes st: "decoder_step d context B S ie v = Inr v'"
    and sh: "case v_upper_bounds v of None \<Rightarrow> True | Some u \<Rightarrow> has_shape2 B S u"
    and l: "map_of (v_attns v) ''std'' = Some l"
  shows "\<exists>ub attn. v_upper_bounds v' = Some ub \<and> has_shape2 B S ub \<and>
           map_of (v_attns v') ''std'' = Some (l @ [attn]) \<and>
           (\<forall>b<B. \<forall>j<S - 1. ub ! b ! j =
              (case v_upper_bounds v of None \<Rightarrow> dec_fertility d | Some u \<Rightarrow> u ! b ! j)
                - attn ! b ! j) \<and>
           (\<forall>b<B. ub ! b ! (S - 1) = 100 - attn ! b ! (S - 1))"
proof -
  obtain i e where ie: "ie = (i, e)" by (cases ie)
  let ?u0 = "case v_upper_bounds v of
               None \<Rightarrow> replicate B (replicate S (dec_fertility d)) | Some u \<Rightarrow> u"
  from decoder_step_facts[OF st[unfolded ie]] l obtain ub1 ub2 attn where
    s1: "set_sink ?u0 = Inr ub1" and s2: "isub ub1 attn = Inr ub2"
    and s3: "v_upper_bounds v' = Some ub2"
    and s4: "map_of (v_attns v') ''std'' = Some (l @ [attn])"
    by (auto simp: step_upper_bounds_def)
  have sh0: "has_shape2 B S ?u0"
    using sh by (auto simp: has_shape2_def list_all_length split: option.splits)
  have v0: "?u0 ! b ! j = (case v_upper_bounds v of None \<Rightarrow> dec_fertility d | Some u \<Rightarrow> u ! b ! j)"
    if "b < B" "j < S - 1" for b j
    using that by (auto split: option.splits)
  from set_sink_shape[OF s1 sh0] have sh1: "has_shape2 B S ub1"
    and e1: "\<forall>b<B. \<forall>j<S - 1. ub1 ! b ! j = ?u0 ! b ! j"
    and e1': "\<forall>b<B. 0 < S \<and> ub1 ! b ! (S - 1) = 100" by auto
  from isub_shape[OF s2 sh1] have sh2: "has_shape2 B S ub2"
    and e2: "\<forall>b<B. \<forall>j<S. ub2 ! b ! j = ub1 ! b ! j - attn ! b ! j" by auto
  have "ub2 ! b ! j =
          (case v_upper_bounds v of None \<Rightarrow> dec_fertility d | Some u \<Rightarrow> u ! b ! j) - attn ! b ! j"
    if "b < B" "j < S - 1" for b j
  proof -
    from that have "j < S" by simp
    with e1 e2 v0[OF that] that show ?thesis by simp
  qed
  moreover have "ub2 ! b ! (S - 1) = 100 - attn ! b ! (S - 1)" if "b < B" for b
    using e1' e2 that by simp
  ultimately show ?thesis using s3 s4 sh2 by blast
qed

lemma decoder_loop_budget:
  assumes "decoder_loop d context B S steps v = Inr v'"
    and "v_upper_bounds v = Some u" "has_shape2 B S u"
    and "map_of (v_attns v) ''std'' = Some l"
  shows "\<exists>ub new. v_upper_bounds v' = Some ub \<and> has_shape2 B S ub \<and>
           map_of (v_attns v') ''std'' = Some (l @ new) \<and> length new = length steps \<and>
           (\<forall>b<B. \<forall>j<S - 1. ub ! b ! j = u ! b ! j - (\<Sum>a\<leftarrow>new. a ! b ! j)) \<and>
           (steps \<noteq> [] \<longrightarrow> (\<forall>b<B. ub ! b ! (S - 1) = 100 - last new ! b ! (S - 1)))"
  using assms
proof (induction steps arbitrary: v u l)
  case Nil
  then show ?case by auto
next
  case (Cons ie steps)
  from Cons.prems(1) obtain v1 where s: "decoder_step d context B S ie v = Inr v1"
    and lo: "decoder_loop d context B S steps v1 = Inr v'"
    by (auto simp: bindE_eq_Inr)
  from decoder_step_budget[OF s _ Cons.prems(4)] Cons.prems(2,3)
  obtain ub1 attn where a: "v_upper_bounds v1 = Some ub1" "has_shape2 B S ub1"
    "map_of (v_attns v1) ''std'' = Some (l @ [attn])"
    "\<forall>b<B. \<forall>j<S - 1. ub1 ! b ! j = u ! b ! j - attn ! b ! j"
    "\<forall>b<B. ub1 ! b ! (S - 1) = 100 - attn ! b ! (S - 1)"
    by auto
  from Cons.IH[OF lo a(1,2,3)] obtain ub new where
    b: "v_upper_bounds v' = Some ub" "has_shape2 B S ub"
       "map_of (v_attns v') ''std'' = Some ((l @ [attn]) @ new)" "length new = length steps"
       "\<forall>b<B. \<forall>j<S - 1. ub ! b ! j = ub1 ! b ! j - (\<Sum>a\<leftarrow>new. a ! b ! j)"
       "steps \<noteq> [] \<longrightarrow> (\<forall>b<B. ub ! b ! (S - 1) = 100 - last new ! b ! (S - 1))"
    by blast
  have e: "ub = ub1" if "steps = []"
    using that lo a(1) b(1) by simp
  have "\<forall>b<B. ub ! b ! (S - 1) = 100 - last (attn # new) ! b ! (S - 1)"
    using a(5) b(4,6) e by (cases steps) auto
  then show ?case
    by (intro exI[of _ ub] exI[of _ "attn # new"]) (use a b in simp)
qed

text \<open>
  Claim C2. Take a call of the decoder with no budget supplied and stop it after step
  \<open>n\<close>, \<open>1 \<le> n \<le>\<close> the number of target steps. The budget the first attention
  call was given has the shape batch \<open>\<times>\<close> source length (the length of the memory bank),
  with the configured fertility in every entry but the sink column, which holds 100.
  After step \<open>n\<close> the budget still has that shape, the dictionary holds the \<open>n\<close>
  weight tensors of the steps under \<open>std\<close>, and every entry of the budget outside the
  sink column is the fertility minus the sum, over the steps 1 to \<open>n\<close>, of the weights
  of that entry. The sink entries are 100 minus the weights of step \<open>n\<close> alone, since
  every step sets them anew.
\<close>

theorem budget_is_fertility_minus_attention:
  assumes run: "decoder_steps d input src context state None n = Inr v"
    and n: "0 < n" "n \<le> length input"
  shows "\<exists>ub std. v_upper_bounds v = Some ub \<and>
           has_shape2 (length (hd input)) (length context) ub \<and>
           hd (v_attn_calls v) =
             replicate (length (hd input))
               (replicate (length context - 1) (dec_fertility d) @ [100]) \<and>
           map_of (v_attns v) ''std'' = Some std \<and> length std = n \<and>
           (\<forall>b<length (hd input). \<forall>j<length context - 1.
              ub ! b ! j = dec_fertility d - (\<Sum>a\<leftarrow>std. a ! b ! j)) \<and>
           (\<forall>b<length (hd input).
              ub ! b ! (length context - 1) = 100 - last std ! b ! (length context - 1))"
proof -
  let ?B = "length (hd input)" and ?S = "length context"
  from run obtain emb nb sl v0 where
    su: "decoder_setup d input src context state None = Inr (emb, nb, sl, v0)"
    and lo: "decoder_loop d context nb sl (take n (enumerate 0 emb)) v0 = Inr v"
    by (auto simp: decoder_steps_def bindE_eq_Inr)
  from decoder_setup_facts[OF su] have f: "length emb = length input" "nb = ?B" "sl = ?S"
    "context \<noteq> []" "v_upper_bounds v0 = None" "v_attn_calls v0 = []"
    "v_attns v0 = init_attns d"
    by auto
  have std0: "map_of (v_attns v0) ''std'' = Some []" using f by (simp add: init_attns_def)
  have len: "length (take n (enumerate 0 emb)) = n" using n f by simp
  then obtain ie steps where t: "take n (enumerate 0 emb) = ie # steps"
    using n by (cases "take n (enumerate 0 emb)") auto
  have ls: "length steps = n - 1" using len t by simp
  from lo[unfolded t] obtain v1 where s: "decoder_step d context nb sl ie v0 = Inr v1"
    and lo': "decoder_loop d context nb sl steps v1 = Inr v"
    by (auto simp: bindE_eq_Inr)
  from decoder_step_budget[OF s _ std0] f obtain ub1 attn where
    a: "v_upper_bounds v1 = Some ub1" "has_shape2 nb sl ub1"
       "map_of (v_attns v1) ''std'' = Some [attn]"
       "\<forall>b<nb. \<forall>j<sl - 1. ub1 ! b ! j = dec_fertility d - attn ! b ! j"
       "\<forall>b<nb. ub1 ! b ! (sl - 1) = 100 - attn ! b ! (sl - 1)"
    by auto
  from decoder_loop_budget[OF lo' a(1,2,3)] obtain ub new where
    b: "v_upper_bounds v = Some ub" "has_shape2 nb sl ub"
       "map_of (v_attns v) ''std'' = Some ([attn] @ new)" "length new = length steps"
       "\<forall>b<nb. \<forall>j<sl - 1. ub ! b ! j = ub1 ! b ! j - (\<Sum>a\<leftarrow>new. a ! b ! j)"
       "steps \<noteq> [] \<longrightarrow> (\<forall>b<nb. ub ! b ! (sl - 1) = 100 - last new ! b ! (sl - 1))"
    by blast
  have same: "ub = ub1" if "steps = []"
    using that lo' a(1) b(1) by simp
  have sink: "\<forall>b<nb. ub ! b ! (sl - 1) = 100 - last (attn # new) ! b ! (sl - 1)"
    using a(5) b(4,6) same by (cases steps) auto
  obtain i e where ie: "ie = (i, e)" by (cases ie)
  from decoder_step_facts[OF s[unfolded ie]] f obtain c1 where
    c: "set_sink (replicate nb (replicate sl (dec_fertility d))) = Inr c1"
       "v_attn_calls v1 = [c1]"
    by (auto simp: step_upper_bounds_def)
  have sl: "0 < sl" using f by simp
  have c1: "c1 = replicate nb (replicate (sl - 1) (dec_fertility d) @ [100])"
    using c(1) sl by (auto simp: set_sink_def butlast_replicate_eq split: if_splits)
  from decoder_loop_calls[OF lo'] c(2) have hd: "hd (v_attn_calls v) = c1" by auto
  have "\<forall>b<nb. \<forall>j<sl - 1. ub ! b ! j = dec_fertility d - (\<Sum>a\<leftarrow>attn # new. a ! b ! j)"
    using a(4) b(5) by simp
  then show ?thesis
    using b(1,2,3,4) ls n hd c1 f(2,3) sink
    by (intro exI[of _ ub] exI[of _ "attn # new"]) simp
qed

theorem budget_is_fertility_minus_attention_witness:
  "decoder_steps (ex_decoder False False False) ex_input ex_src ex_context ex_state None 2
     = Inr \<lparr>v_upper_bounds = Some [[1, 199 / 2]], v_output = [[7]], v_hidden = [],
            v_coverage = None, v_outputs = [[[5]], [[7]]],
            v_attns = [(''std'', [[[1 / 2, 1 / 2]], [[1 / 2, 1 / 2]]])],
            v_attn_calls = [[[2, 100]], [[3 / 2, 100]]]\<rparr> \<and>
   (0 :: nat) < 2 \<and> 2 \<le> length ex_input \<and>
   has_shape2 (length (hd ex_input)) (length ex_context) [[1, 199 / 2 :: real]] \<and>
   [[1, 199 / 2]] ! 0 ! 0
     = dec_fertility (ex_decoder False False False)
       - (\<Sum>a\<leftarrow>[[[1 / 2, 1 / 2]], [[1 / 2, 1 / 2]]]. a ! 0 ! 0) \<and>
   [[1, 199 / 2]] ! 0 ! (length ex_context - 1)
     = 100 - last [[[1 / 2, 1 / 2]], [[1 / 2, 1 / 2 :: real]]] ! 0 ! (length ex_context - 1)"
  using budget_is_fertility_minus_attention
    [of "ex_decoder False False False" ex_input ex_src ex_context ex_state 2]
  by (simp add: run_defs Let_def has_shape2_def)

subsection \<open>The last step and the returned state\<close>

lemma bindE_assoc: "bindE (bindE m f) g = bindE m (\<lambda>x. bindE (f x) g)"
  by (cases m) auto

lemma decoder_loop_append:
  "decoder_loop d context nb sl (xs @ ys) v =
     bindE (decoder_loop d context nb sl xs v) (decoder_loop d context nb sl ys)"
  by (induction xs arbitrary: v) (auto simp: bindE_assoc intro: arg_cong[where f="bindE _"])

lemma decoder_steps_last:
  assumes "decoder_steps d input src context state ub (length input) = Inr v"
  shows "\<exists>emb nb sl v0 v_prev.
           decoder_setup d input src context state ub = Inr (emb, nb, sl, v0) \<and>
           decoder_steps d input src context state ub (length input - 1) = Inr v_prev \<and>
           decoder_step d context nb sl (length input - 1, emb ! (length input - 1)) v_prev
             = Inr v"
proof -
  from assms obtain emb nb sl v0 where
    su: "decoder_setup d input src context state ub = Inr (emb, nb, sl, v0)"
    and lo: "decoder_loop d context nb sl (take (length input) (enumerate 0 emb)) v0 = Inr v"
    by (auto simp: decoder_steps_def bindE_eq_Inr)
  from decoder_setup_facts[OF su] have le: "length emb = length input" and ne: "input \<noteq> []"
    by auto
  let ?n = "length input - 1"
  have n: "?n < length (enumerate 0 emb)" "Suc ?n = length input" using le ne by auto
  have "take (length input) (enumerate 0 emb)
          = take ?n (enumerate 0 emb) @ [(?n, emb ! ?n)]"
    using take_Suc_conv_app_nth[OF n(1)] n le by (simp add: nth_enumerate_eq)
  with lo obtain v_prev where
    p: "decoder_loop d context nb sl (take ?n (enumerate 0 emb)) v0 = Inr v_prev"
    and s: "decoder_step d context nb sl (?n, emb ! ?n) v_prev = Inr v"
    by (auto simp: decoder_loop_append bindE_eq_Inr)
  have "decoder_steps d input src context state ub ?n = Inr v_prev"
    using su p by (simp add: decoder_steps_def)
  with su s show ?thesis by blast
qed

lemma dict_append_other:
  "dict_append a k x = Inr a' \<Longrightarrow> k' \<noteq> k \<Longrightarrow> map_of a' k' = map_of a k'"
  by (auto simp: dict_append_def update_conv' split: option.splits)

lemma coverage_step_cov:
  "coverage_step d c attn a = Inr r \<Longrightarrow>
     (if dec_coverage d
      then (\<exists>l c'. fst r = Some c' \<and> map_of (snd r) ''coverage'' = Some (l @ [c']))
      else fst r = c)"
  by (auto simp: coverage_step_def bindE_eq_Inr split: if_splits dest!: dict_append_same)

lemma copy_step_cov:
  "copy_step d out ctx a = Inr a' \<Longrightarrow> map_of a' ''coverage'' = map_of a ''coverage''"
  by (auto simp: copy_step_def dict_append_other split: if_splits)

lemma exhaustion_step_cov:
  "exhaustion_step d ub a = Inr a' \<Longrightarrow> map_of a' ''coverage'' = map_of a ''coverage''"
  by (auto simp: exhaustion_step_def dict_append_other split: if_splits)

lemma decoder_step_coverage:
  assumes "decoder_step d context nb sl ie v = Inr v'"
  shows "if dec_coverage d
         then (\<exists>l c. v_coverage v' = Some c \<and> map_of (v_attns v') ''coverage'' = Some (l @ [c]))
         else v_coverage v' = v_coverage v"
  using assms unfolding decoder_step_def Let_def
  apply (clarsimp simp: bindE_eq_Inr case_prod_beta simp del: split_paired_Ex)
  apply (frule coverage_step_cov)
  apply (frule copy_step_cov)
  apply (frule exhaustion_step_cov)
  apply (auto split: if_splits)
  done

lemma decoder_loop_coverage_off:
  "decoder_loop d context nb sl steps v = Inr v' \<Longrightarrow> \<not> dec_coverage d \<Longrightarrow>
     v_coverage v' = v_coverage v"
proof (induction steps arbitrary: v)
  case (Cons ie steps)
  from Cons.prems obtain v1 where s: "decoder_step d context nb sl ie v = Inr v1"
    and l: "decoder_loop d context nb sl steps v1 = Inr v'"
    by (auto simp: bindE_eq_Inr)
  from decoder_step_coverage[OF s] Cons.prems(2) Cons.IH[OF l] show ?case by simp
qed simp

lemma stack_Inr: "stack xs = Inr ys \<Longrightarrow> ys = xs \<and> xs \<noteq> []"
  by (auto simp: stack_def split: list.splits if_splits)

lemma stack_all_lookup:
  "stack_all a = Inr r \<Longrightarrow> map_of a k = Some l \<Longrightarrow> map_of r k = Some l"
  by (induction a arbitrary: r rule: stack_all.induct)
     (auto simp: bindE_eq_Inr dest: stack_Inr split: if_splits)

text \<open>
  Claim C4, as amended. Whenever the decoder returns, over \<open>T\<close> target steps, the
  returned state is a recurrent one. Its hidden state is what the stacked cell returned
  at step \<open>T\<close>, called on that step's input and the hidden state left by step
  \<open>T - 1\<close>; its input feed is the last of the stacked outputs, the output of step \<open>T\<close>
  after gate and dropout; its budget is the budget after step \<open>T\<close>, which is also the
  fourth result. With coverage configured its coverage is the last coverage recorded in
  the attention maps; with coverage not configured it is the coverage of the incoming
  state, unchanged (\<^verbatim>\<open>None\<close> only if that state had none).
\<close>

theorem returned_decoder_state:
  assumes "Decoder_forward d input src context state ub = Inr (outputs, state', attns, ub')"
  shows "\<exists>v_prev v emb e.
      Embeddings_forward (dec_embeddings d) (map (map (\<lambda>w. [w])) input) = Inr emb \<and>
      decoder_steps d input src context state ub (length input - 1) = Inr v_prev \<and>
      decoder_steps d input src context state ub (length input) = Inr v \<and>
      (if dec_input_feed d then cat_dim1 (emb ! (length input - 1)) (v_output v_prev)
       else Inr (emb ! (length input - 1))) = Inr e \<and>
      outputs \<noteq> [] \<and>
      state' = RNNDecoderState (snd (dec_rnn d (length input - 1) e (v_hidden v_prev)))
                 (Some [last outputs]) (v_coverage v) (v_upper_bounds v) \<and>
      (if dec_coverage d
       then (\<exists>covs. map_of attns ''coverage'' = Some covs \<and> covs \<noteq> [] \<and>
               coverage state' = Some (last covs))
       else coverage state' = coverage state) \<and>
      v_upper_bounds v \<noteq> None \<and> attn_upper_bounds state' = ub' \<and> ub' = v_upper_bounds v"
proof -
  from assms obtain v where
    st: "decoder_steps d input src context state ub (length input) = Inr v"
    and so: "stack (v_outputs v) = Inr outputs"
    and sa: "stack_all (v_attns v) = Inr attns"
    and s': "state' = RNNDecoderState (v_hidden v) (Some [v_output v]) (v_coverage v)
                        (v_upper_bounds v)"
    and u': "ub' = v_upper_bounds v"
    by (auto simp: Decoder_forward_def bindE_eq_Inr Let_def)
  from decoder_steps_last[OF st] obtain emb nb sl v0 v_prev where
    su: "decoder_setup d input src context state ub = Inr (emb, nb, sl, v0)"
    and pr: "decoder_steps d input src context state ub (length input - 1) = Inr v_prev"
    and ls: "decoder_step d context nb sl (length input - 1, emb ! (length input - 1)) v_prev
               = Inr v"
    by blast
  have em: "Embeddings_forward (dec_embeddings d) (map (map (\<lambda>w. [w])) input) = Inr emb"
    using decoder_setup_facts[OF su] by simp
  from decoder_step_facts[OF ls] obtain e where
    e: "(if dec_input_feed d then cat_dim1 (emb ! (length input - 1)) (v_output v_prev)
         else Inr (emb ! (length input - 1))) = Inr e"
    and h: "v_hidden v = snd (dec_rnn d (length input - 1) e (v_hidden v_prev))"
    and o: "v_outputs v = v_outputs v_prev @ [v_output v]"
    and b: "v_upper_bounds v \<noteq> None"
    by auto
  from stack_Inr[OF so] o have out: "outputs \<noteq> []" "last outputs = v_output v" by auto
  have cov: "if dec_coverage d
       then (\<exists>covs. map_of attns ''coverage'' = Some covs \<and> covs \<noteq> [] \<and>
               coverage state' = Some (last covs))
       else coverage state' = coverage state"
  proof (cases "dec_coverage d")
    case True
    with decoder_step_coverage[OF ls] obtain l c where
      "v_coverage v = Some c" "map_of (v_attns v) ''coverage'' = Some (l @ [c])" by auto
    with stack_all_lookup[OF sa] s' True show ?thesis by auto
  next
    case False
    from pr su obtain lo where
      "decoder_loop d context nb sl lo v0 = Inr v_prev"
      by (auto simp: decoder_steps_def bindE_eq_Inr)
    from decoder_loop_coverage_off[OF this False] decoder_step_coverage[OF ls] False
      decoder_setup_facts[OF su] s'
    show ?thesis by auto
  qed
  show ?thesis
    using em pr st e out s' h cov b u'
    by (intro exI[of _ v_prev] exI[of _ v] exI[of _ emb] exI[of _ e]) simp
qed

theorem returned_decoder_state_witness:
  "Decoder_forward (ex_decoder True False False) [[5]] ex_src ex_context ex_state None
     = Inr ([[[5]]],
            RNNDecoderState [] (Some [[[5]]]) (Some [[1 / 2, 1 / 2]]) (Some [[3 / 2, 199 / 2]]),
            [(''std'', [[[1 / 2, 1 / 2]]]), (''coverage'', [[[1 / 2, 1 / 2]]])],
            Some [[3 / 2, 199 / 2]]) \<and>
   map_of [(''std'', [[[1 / 2, 1 / 2]]]), (''coverage'', [[[1 / 2, 1 / 2 :: real]]])]
     ''coverage'' = Some [[[1 / 2, 1 / 2]]] \<and>
   last [[[5 :: real]]] = [[5]]"
  using returned_decoder_state
    [of "ex_decoder True False False" "[[5]]" ex_src ex_context ex_state None]
  by (simp add: run_defs Let_def)

text \<open>
  Claim C4 as stated says the returned coverage is \<^verbatim>\<open>None\<close> when coverage is not
  configured. A decoder without coverage, called on a state that carries a coverage,
  returns that coverage.
\<close>

theorem returned_coverage_counterexample:
  "\<not> dec_coverage (ex_decoder False False False) \<and>
   Decoder_forward (ex_decoder False False False) ex_input ex_src ex_context
     (RNNDecoderState [] (Some [[[0]]]) (Some [[9, 9]]) None) None
   = Inr ([[[5]], [[7]]],
          RNNDecoderState [] (Some [[[7]]]) (Some [[9, 9]]) (Some [[1, 199 / 2]]),
          [(''std'', [[[1 / 2, 1 / 2]], [[1 / 2, 1 / 2]]])],
          Some [[1, 199 / 2]]) \<and>
   coverage (RNNDecoderState [] (Some [[[7 :: real]]]) (Some [[9, 9 :: real]])
              (Some [[1, 199 / 2 :: real]])) \<noteq> None"
  by (simp add: run_defs Let_def)

subsection \<open>The coverage at the second step\<close>

text \<open>
  Claim C5. With coverage configured, step 1 records the weights of step 1 as the
  coverage. At step 2 line 240 takes the truth value of that coverage, a tensor of two
  entries, which fails: the call ends in an error of the tensor library and no coverage
  of step 2 is recorded.
\<close>

theorem coverage_fails_at_second_step:
  "decoder_steps (ex_decoder True False False) ex_input ex_src ex_context ex_state None 1
     = Inr \<lparr>v_upper_bounds = Some [[3 / 2, 199 / 2]], v_output = [[5]], v_hidden = [],
            v_coverage = Some [[1 / 2, 1 / 2]], v_outputs = [[[5]]],
            v_attns = [(''std'', [[[1 / 2, 1 / 2]]]), (''coverage'', [[[1 / 2, 1 / 2]]])],
            v_attn_calls = [[[2, 100]]]\<rparr> \<and>
   decoder_steps (ex_decoder True False False) ex_input ex_src ex_context ex_state None 2
     = Inl TorchError \<and>
   Decoder_forward (ex_decoder True False False) ex_input ex_src ex_context ex_state None
     = Inl TorchError"
  by (simp add: run_defs Let_def)

subsection \<open>The model decodes all target steps but the last\<close>

lemma decoder_loop_outputs:
  "decoder_loop d context nb sl steps v = Inr v' \<Longrightarrow>
     length (v_outputs v') = length (v_outputs v) + length steps"
proof (induction steps arbitrary: v)
  case (Cons ie steps)
  from Cons.prems obtain v1 where s: "decoder_step d context nb sl ie v = Inr v1"
    and l: "decoder_loop d context nb sl steps v1 = Inr v'"
    by (auto simp: bindE_eq_Inr)
  obtain i e where ie: "ie = (i, e)" by (cases ie)
  from decoder_step_facts[OF s[unfolded ie]] have "length (v_outputs v1) = Suc (length (v_outputs v))"
    by auto
  with Cons.IH[OF l] show ?case by simp
qed simp

lemma Decoder_forward_steps:
  assumes "Decoder_forward d input src context state ub = Inr (outputs, state', attns, ub')"
  shows "\<exists>v. decoder_steps d input src context state ub (length input) = Inr v \<and>
           length (v_attn_calls v) = length input \<and> length outputs = length input"
proof -
  from assms obtain v where
    st: "decoder_steps d input src context state ub (length input) = Inr v"
    and so: "stack (v_outputs v) = Inr outputs"
    by (auto simp: Decoder_forward_def bindE_eq_Inr Let_def)
  from st obtain emb nb sl v0 where
    su: "decoder_setup d input src context state ub = Inr (emb, nb, sl, v0)"
    and lo: "decoder_loop d context nb sl (take (length input) (enumerate 0 emb)) v0 = Inr v"
    by (auto simp: decoder_steps_def bindE_eq_Inr)
  from decoder_setup_facts[OF su] have f: "length emb = length input" "v_outputs v0 = []"
    "v_attn_calls v0 = []" by auto
  from decoder_loop_outputs[OF lo] decoder_loop_calls[OF lo] f stack_Inr[OF so] st
  show ?thesis by auto
qed

lemma all_but_last_Inr: "all_but_last x = Inr y \<Longrightarrow> y = butlast x \<and> 2 \<le> length x"
  by (auto simp: all_but_last_def split: if_splits)

text \<open>
  Claim C7. Whenever \<^verbatim>\<open>NMTModel.forward\<close> returns, the encoder has run on the
  source as given, and the results come from the decoder called on the target without its
  last step and on the same source. For a target of \<open>T\<close> steps the decoder's loop has
  made \<open>T - 1\<close> attention calls and produced \<open>T - 1\<close> outputs, and \<open>T\<close> is at
  least 2.
\<close>

theorem nmt_decodes_all_but_last:
  assumes "NMTModel_forward M src tgt lengths dec_state = Inr (out, attns, st, ub)"
  shows "\<exists>enc_hidden context fv enc_state st' attns' v.
      Encoder_forward (model_encoder M) src lengths None = Inr (enc_hidden, context, fv) \<and>
      init_decoder_state M context enc_hidden = Inr enc_state \<and>
      Decoder_forward (model_decoder M) (butlast tgt) src context
        (case dec_state of None \<Rightarrow> enc_state | Some s \<Rightarrow> s) None = Inr (out, st', attns', ub) \<and>
      decoder_steps (model_decoder M) (butlast tgt) src context
        (case dec_state of None \<Rightarrow> enc_state | Some s \<Rightarrow> s) None (length tgt - 1) = Inr v \<and>
      length (v_attn_calls v) = length tgt - 1 \<and>
      length out = length tgt - 1 \<and> 2 \<le> length tgt"
proof -
  from assms obtain tgt' enc_hidden ctx fv enc_state st' attns' where
    a: "all_but_last tgt = Inr tgt'"
    and e: "Encoder_forward (model_encoder M) src lengths None = Inr (enc_hidden, ctx, fv)"
    and i: "init_decoder_state M ctx enc_hidden = Inr enc_state"
    and d: "Decoder_forward (model_decoder M) tgt' src ctx
              (case dec_state of None \<Rightarrow> enc_state | Some s \<Rightarrow> s) None
            = Inr (out, st', attns', ub)"
    unfolding NMTModel_forward_def
    by (auto simp: bindE_eq_Inr split: if_splits)
  from all_but_last_Inr[OF a] have t: "tgt' = butlast tgt" "2 \<le> length tgt" by auto
  from Decoder_forward_steps[OF d] t e i d show ?thesis
    by (auto simp del: split_paired_Ex)
qed

theorem nmt_decodes_all_but_last_witness:
  "NMTModel_forward ex_model ex_src [[5], [7], [9]] None None
     = Inr ([[[5]], [[7]]],
            Some [(''std'', [[[1 / 2, 1 / 2]], [[1 / 2, 1 / 2]]])],
            Some (RNNDecoderState [[[[1]]]] (Some [[[7]]]) None (Some [[1, 199 / 2]])),
            Some [[1, 199 / 2]]) \<and>
   length [[[5 :: real]], [[7]]] = length [[5 :: int], [7], [9]] - 1"
  using nmt_decodes_all_but_last [of ex_model ex_src "[[5], [7], [9]]" None None]
  by (simp add: run_defs Let_def NMTModel_forward_def all_but_last_def Encoder_forward_def
      init_decoder_state_def fix_enc_hidden_def ex_model_def ex_encoder_def)

subsection \<open>The check at the entry of the encoder\<close>

lemma size3_not_assert: "size3 x \<noteq> Inl AssertionError"
  by (auto simp: size3_def split: list.splits)

text \<open>
  Claim C9. Let the size of the input unpack, with batch size \<open>n_batch\<close>, and let
  the lengths be a tensor whose second dimension is \<open>n_batch'\<close>. If the two differ the
  encoder fails with an assertion, whatever its embedding and its network are: the check
  comes before both. If they agree, or if no lengths are given, the call does not end in
  an assertion.
\<close>

theorem encoder_length_check:
  assumes i: "size3 input = Inr (s_len, n_batch, n_feats)"
    and l: "size2 l = Inr (k, n_batch')"
  shows "Encoder_forward E input None h \<noteq> Inl AssertionError \<and>
         (if n_batch' = n_batch then Encoder_forward E input (Some l) h \<noteq> Inl AssertionError
          else Encoder_forward E input (Some l) h = Inl AssertionError)"
  using i l
  by (auto simp: Encoder_forward_def aeq_def bindE_eq_Inl Let_def case_prod_beta
      Embeddings_not_assert size3_not_assert)

theorem encoder_length_check_witness:
  "size3 ex_src = Inr (2, 1, 1) \<and> size2 [[2 :: int, 2]] = Inr (1, 2) \<and>
   Encoder_forward (ex_encoder\<lparr>enc_embeddings := ex_embeddings\<lparr>positional_encoding := True\<rparr>\<rparr>)
     ex_src None None = Inl TorchError \<and>
   Encoder_forward (ex_encoder\<lparr>enc_embeddings := ex_embeddings\<lparr>positional_encoding := True\<rparr>\<rparr>)
     ex_src (Some [[2, 2]]) None = Inl AssertionError"
  using encoder_length_check
    [of ex_src 2 1 1 "[[2, 2]]" 1 2
        "ex_encoder\<lparr>enc_embeddings := ex_embeddings\<lparr>positional_encoding := True\<rparr>\<rparr>" None]
  by (simp add: run_defs Let_def Encoder_forward_def ex_encoder_def has_shape3_def)

subsection \<open>What the methods of a state leave alone\<close>

lemma detach_fold_frame:
  "Some a \<notin> set es \<Longrightarrow>
     fold (\<lambda>h H. case h of None \<Rightarrow> H | Some a \<Rightarrow> H[a := detach_var (H ! a)]) es H ! a = H ! a"
proof (induction es arbitrary: H)
  case (Cons e es)
  show ?case
  proof (cases e)
    case None
    with Cons show ?thesis by simp
  next
    case (Some b)
    with Cons.prems have "b \<noteq> a" "Some a \<notin> set es" by auto
    with Cons.IH[of "H[b := detach_var (H ! b)]"] Some show ?thesis by simp
  qed
qed simp

lemma detach_fold_length:
  "length (fold (\<lambda>h H. case h of None \<Rightarrow> H | Some a \<Rightarrow> H[a := detach_var (H ! a)]) es H)
     = length H"
  by (induction es arbitrary: H) (auto split: option.splits)

lemma beamUpdate_all_frame:
  "beamUpdate_all H es idx positions beamSize = Inr H' \<Longrightarrow> Some a \<notin> set es \<Longrightarrow>
     H' ! a = H ! a \<and> length H' = length H"
proof (induction H es idx positions beamSize arbitrary: H' rule: beamUpdate_all.induct)
  case (3 H b es idx positions beamSize)
  from "3.prems"(1) obtain t t' where
    d: "data (H ! b) = Rank3 t" and l: "beam_layers idx positions beamSize t = Inr t'"
    and r: "beamUpdate_all (H[b := (H ! b)\<lparr>data := Rank3 t'\<rparr>]) es idx positions beamSize = Inr H'"
    by (auto simp: bindE_eq_Inr split: tdata.splits)
  from "3.prems"(2) have "b \<noteq> a" "Some a \<notin> set es" by auto
  with "3.IH"[OF d r] show ?case by simp
qed auto

text \<open>
  Claim C10. Take a recurrent state and an object \<open>a\<close> of the heap that is its coverage
  or its budget and is not also one of its hidden tensors or its input feed.
  \<^verbatim>\<open>detach\<close> leaves the object as it is, history included. \<^verbatim>\<open>repeatBeam_\<close>
  leaves the object as it is, data included, and the state it returns still has the same
  coverage and the same budget, while the hidden tensors and the input feed are new
  objects. \<^verbatim>\<open>beamUpdate_\<close> leaves the object as it is when it is the coverage only;
  when it is the budget, its rows are reordered through \<open>beam_rows\<close> and nothing else
  of it changes.
\<close>

theorem state_methods_leave_coverage_and_budget:
  assumes a: "a \<in> set_option cv \<union> set_option ub"
    and sep: "a \<notin> set h \<union> set_option f"
    and inH: "a < length H"
  shows "detach H (RNNDecoderState h f cv ub) ! a = H ! a \<and>
         (\<forall>H' s'. repeatBeam H (RNNDecoderState h f cv ub) beamSize = Inr (H', s') \<longrightarrow>
            H' ! a = H ! a \<and> coverage s' = cv \<and> attn_upper_bounds s' = ub) \<and>
         (\<forall>H'. beamUpdate H (RNNDecoderState h f cv ub) idx positions beamSize = Inr H' \<longrightarrow>
            (if ub = Some a
             then (\<exists>rows rows'. data (H ! a) = Rank2 rows \<and>
                     beam_rows idx positions beamSize rows = Inr rows' \<and>
                     H' ! a = (H ! a)\<lparr>data := Rank2 rows'\<rparr>)
             else H' ! a = H ! a))"
proof -
  let ?s = "RNNDecoderState h f cv ub"
  have notin: "Some a \<notin> set (all_of ?s)" using sep by (cases f) auto
  have d: "detach H ?s ! a = H ! a"
    unfolding detach_def by (rule detach_fold_frame[OF notin])
  have r: "H' ! a = H ! a \<and> coverage s' = cv \<and> attn_upper_bounds s' = ub"
    if "repeatBeam H ?s beamSize = Inr (H', s')" for H' s'
    using that inH
    by (auto simp: repeatBeam_def Let_def nth_append split: option.splits if_splits)
  have b: "if ub = Some a
           then (\<exists>rows rows'. data (H ! a) = Rank2 rows \<and>
                   beam_rows idx positions beamSize rows = Inr rows' \<and>
                   H' ! a = (H ! a)\<lparr>data := Rank2 rows'\<rparr>)
           else H' ! a = H ! a"
    if "beamUpdate H ?s idx positions beamSize = Inr H'" for H'
  proof -
    from that obtain H1 where
      h1: "beamUpdate_all H (all_of ?s) idx positions beamSize = Inr H1"
      and rest: "(case ub of
                    Some u \<Rightarrow>
                      (case data (H1 ! u) of
                         Rank3 _ \<Rightarrow> Inl ValueError
                       | Rank2 rows \<Rightarrow>
                           bindE (beam_rows idx positions beamSize rows) (\<lambda>rows'.
                             Inr (H1[u := (H1 ! u)\<lparr>data := Rank2 rows'\<rparr>])))
                  | None \<Rightarrow> Inr H1) = Inr H'"
      by (auto simp: beamUpdate_def bindE_eq_Inr split: option.splits)
    from beamUpdate_all_frame[OF h1 notin] have f1: "H1 ! a = H ! a" "length H1 = length H"
      by auto
    show ?thesis
    proof (cases "ub = Some a")
      case True
      with rest f1 inH show ?thesis
        by (auto simp: bindE_eq_Inr split: tdata.splits)
    next
      case False
      with rest f1 inH show ?thesis
        by (auto simp: bindE_eq_Inr split: tdata.splits option.splits)
    qed
  qed
  from d r b show ?thesis by blast
qed

theorem state_methods_leave_coverage_and_budget_witness:
  "(4 :: nat) \<in> set_option (Some 3) \<union> set_option (Some 4) \<and>
   (4 :: nat) \<notin> set [0, 1] \<union> set_option (Some 2) \<and> 4 < length ex_heap \<and>
   detach ex_heap ex_beam_state ! 4 = ex_heap ! 4 \<and>
   grad_fn (detach ex_heap ex_beam_state ! 2) = False \<and>
   repeatBeam ex_heap ex_beam_state 2
     = Inr (ex_heap @
              [\<lparr>data = Rank3 [[[1], [2], [1], [2]]], grad_fn = False, requires_grad = False,
                volatile = True\<rparr>,
               \<lparr>data = Rank3 [[[3], [4], [3], [4]]], grad_fn = False, requires_grad = False,
                volatile = True\<rparr>,
               \<lparr>data = Rank3 [[[5], [6], [5], [6]]], grad_fn = False, requires_grad = False,
                volatile = True\<rparr>],
            RNNDecoderState [5, 6] (Some 7) (Some 3) (Some 4)) \<and>
   beamUpdate ex_heap ex_beam_state 0 [1, 0] 2
     = Inr [\<lparr>data = Rank3 [[[2], [1]]], grad_fn = True, requires_grad = True,
             volatile = False\<rparr>,
            \<lparr>data = Rank3 [[[4], [3]]], grad_fn = True, requires_grad = True,
             volatile = False\<rparr>,
            \<lparr>data = Rank3 [[[6], [5]]], grad_fn = True, requires_grad = True,
             volatile = False\<rparr>,
            \<lparr>data = Rank3 [[[7, 8], [9, 10]]], grad_fn = True, requires_grad = True,
             volatile = False\<rparr>,
            \<lparr>data = Rank2 [[2, 100], [1, 100]], grad_fn = True, requires_grad = True,
             volatile = False\<rparr>]"
  using state_methods_leave_coverage_and_budget
    [of 4 "Some 3" "Some 4" "[0, 1]" "Some 2" ex_heap 2 0 "[1, 0]"]
  by (simp add: ex_heap_def ex_beam_state_def detach_def detach_var_def repeatBeam_def
      beamUpdate_def beam_rows_def Let_def upt_rec_numeral eval_nat_numeral)

end
